theory Spec2Isabelle
  imports Complex_Main "HOL-Library.Word" "HOL-Library.Signed_Division" "HOL-Library.Sublist"
begin

unbundle bit_operations_syntax

section \<open>Values shared by the front end\<close>

text \<open>
  \<^verbatim>\<open>double\<close> values, IEEE 754 binary64: a finite value is a sign (\<open>True\<close> for the
  set sign bit) and a magnitude, zero or a real number the format holds, so that there
  are two zeros; the two infinities; and not-a-number, one value for all of them (the
  sign and the payload of a NaN are not represented).
\<close>

datatype double = Finite bool real | Infinity bool | NaN

text \<open>\<^verbatim>\<open>using ConstValue = std::variant<int64_t, uint64_t, double, std::string, bool>\<close>\<close>

datatype ConstValue =
    CV_int64 "64 word"
  | CV_uint64 "64 word"
  | CV_double double
  | CV_string string
  | CV_bool bool

section \<open>Symbol table (semantic/symbol\_table)\<close>

datatype SymbolKind =
    SK_Module | SK_Interface | SK_Struct | SK_Union | SK_Enum | SK_Typedef
  | SK_Exception | SK_Constant | SK_Operation | SK_Attribute | SK_Parameter | SK_EnumValue

text \<open>
  A symbol's \<^verbatim>\<open>ast::ASTNode* node\<close> is a non-owning pointer into the tree the parser
  builds. It is represented by what can be read through it: the parser only ever
  dereferences the pointer of a constant, to read \<^verbatim>\<open>ConstNode::value\<close>, which is fixed
  when the node is constructed. \<^verbatim>\<open>nullptr\<close> is \<open>None\<close>.
\<close>

datatype ASTNodePtr =
    ConstNodePtr ConstValue
  | InterfaceNodePtr string bool
  | StructNodePtr string
  | EnumNodePtr string "string list"
  | OperationNodePtr string
  | AttributeNodePtr string

record Symbol =
  name :: string
  fullyQualifiedName :: string
  kind :: SymbolKind
  node :: "ASTNodePtr option"
  scope :: string

text \<open>
  \<^verbatim>\<open>class Scope\<close>: name, fully qualified name, the \<^verbatim>\<open>unordered_map\<close> of symbols and the
  owned child scopes. The \<^verbatim>\<open>parent\<close> back pointer is not stored: a \<^verbatim>\<open>Scope*\<close> is
  represented by the position of the scope in the ownership tree, the list of child
  indices leading to it from the global scope, and the parent of a scope is the
  position without its last index (\<^verbatim>\<open>nullptr\<close> for the global scope, whose position
  is empty).
\<close>

datatype Scope =
  Scope (scopeName: string) (scopeFqn: string)
        (symbols: "string \<Rightarrow> Symbol option") (children: "Scope list")

type_synonym ScopePtr = "nat list"

fun deref :: "Scope \<Rightarrow> ScopePtr \<Rightarrow> Scope" where
  "deref g [] = g"
| "deref g (i # p) = deref (children g ! i) p"

fun assign :: "Scope \<Rightarrow> ScopePtr \<Rightarrow> Scope \<Rightarrow> Scope" where
  "assign g [] s = s"
| "assign g (i # p) s =
     Scope (scopeName g) (scopeFqn g) (symbols g)
           ((children g)[i := assign (children g ! i) p s])"

text \<open>\<^verbatim>\<open>Scope::Scope(std::string scopeName, Scope* parentScope)\<close>\<close>

definition Scope_new :: "string \<Rightarrow> Scope option \<Rightarrow> Scope" where
  "Scope_new nm parentScope =
     Scope nm
       (case parentScope of
          Some parent \<Rightarrow>
            if scopeFqn parent = [] then nm else scopeFqn parent @ ''::'' @ nm
        | None \<Rightarrow> nm)
       Map.empty []"

text \<open>\<^verbatim>\<open>Scope::addSymbol\<close>: \<^verbatim>\<open>try_emplace\<close> inserts only under a key that is absent.\<close>

definition Scope_addSymbol :: "Symbol \<Rightarrow> Scope \<Rightarrow> bool \<times> Scope" where
  "Scope_addSymbol symbol s =
     (case symbols s (name symbol) of
        Some _ \<Rightarrow> (False, s)
      | None \<Rightarrow>
          (True, Scope (scopeName s) (scopeFqn s)
                       ((symbols s)(name symbol \<mapsto> symbol)) (children s)))"

definition Scope_lookupLocal :: "Scope \<Rightarrow> string \<Rightarrow> Symbol option" where
  "Scope_lookupLocal s symbolName = symbols s symbolName"

text \<open>\<^verbatim>\<open>Scope::lookup\<close>: this scope first, then the parent chain.\<close>

function Scope_lookup :: "Scope \<Rightarrow> ScopePtr \<Rightarrow> string \<Rightarrow> Symbol option" where
  "Scope_lookup g this symbolName =
     (case Scope_lookupLocal (deref g this) symbolName of
        Some found \<Rightarrow> Some found
      | None \<Rightarrow>
          if this \<noteq> [] then Scope_lookup g (butlast this) symbolName else None)"
  by pat_completeness auto
termination
  by (relation "measure (\<lambda>(g, this, n). length this)") auto

declare Scope_lookup.simps [simp del]

text \<open>
  \<^verbatim>\<open>Scope::createChildScope\<close> appends the new child and returns a pointer to it (its
  index); \<^verbatim>\<open>Scope::getChildScope\<close> returns the first child with the name, or \<^verbatim>\<open>nullptr\<close>.
\<close>

definition Scope_createChildScope :: "Scope \<Rightarrow> string \<Rightarrow> Scope \<times> nat" where
  "Scope_createChildScope s childName =
     (Scope (scopeName s) (scopeFqn s) (symbols s)
            (children s @ [Scope_new childName (Some s)]),
      length (children s))"

fun firstNamed :: "Scope list \<Rightarrow> string \<Rightarrow> nat option" where
  "firstNamed [] childName = None"
| "firstNamed (c # cs) childName =
     (if scopeName c = childName then Some 0
      else map_option Suc (firstNamed cs childName))"

definition Scope_getChildScope :: "Scope \<Rightarrow> string \<Rightarrow> nat option" where
  "Scope_getChildScope s childName = firstNamed (children s) childName"

record SymbolTable =
  globalScope :: Scope
  currentScope :: ScopePtr

definition SymbolTable_new :: SymbolTable where
  "SymbolTable_new = \<lparr> globalScope = Scope_new [] None, currentScope = [] \<rparr>"

definition current :: "SymbolTable \<Rightarrow> Scope" where
  "current st = deref (globalScope st) (currentScope st)"

definition enterScope :: "string \<Rightarrow> SymbolTable \<Rightarrow> SymbolTable" where
  "enterScope nm st =
     (case Scope_getChildScope (current st) nm of
        Some existing \<Rightarrow> st\<lparr> currentScope := currentScope st @ [existing] \<rparr>
      | None \<Rightarrow>
          (let (s', created) = Scope_createChildScope (current st) nm
           in \<lparr> globalScope = assign (globalScope st) (currentScope st) s',
                currentScope = currentScope st @ [created] \<rparr>))"

definition leaveScope :: "SymbolTable \<Rightarrow> SymbolTable" where
  "leaveScope st =
     (if currentScope st \<noteq> [] then st\<lparr> currentScope := butlast (currentScope st) \<rparr>
      else st)"

definition buildFullyQualifiedName :: "SymbolTable \<Rightarrow> string \<Rightarrow> string" where
  "buildFullyQualifiedName st nm =
     (if scopeFqn (current st) = [] then nm
      else scopeFqn (current st) @ ''::'' @ nm)"

definition addSymbol ::
  "string \<Rightarrow> SymbolKind \<Rightarrow> ASTNodePtr option \<Rightarrow> SymbolTable \<Rightarrow> bool \<times> SymbolTable" where
  "addSymbol nm k nd st =
     (let smb = \<lparr> name = nm, fullyQualifiedName = buildFullyQualifiedName st nm,
                  kind = k, node = nd, scope = scopeFqn (current st) \<rparr>;
          (inserted, s') = Scope_addSymbol smb (current st)
      in (inserted, st\<lparr> globalScope := assign (globalScope st) (currentScope st) s' \<rparr>))"

definition getCurrentScopeName :: "SymbolTable \<Rightarrow> string" where
  "getCurrentScopeName st = scopeFqn (current st)"

definition existsInCurrentScope :: "SymbolTable \<Rightarrow> string \<Rightarrow> bool" where
  "existsInCurrentScope st nm = (Scope_lookupLocal (current st) nm \<noteq> None)"

definition lookup :: "SymbolTable \<Rightarrow> string \<Rightarrow> Symbol option" where
  "lookup st nm = Scope_lookup (globalScope st) (currentScope st) nm"

text \<open>
  \<^verbatim>\<open>SymbolTable::lookupScoped\<close>. The first loop of the relative case leaves in one of
  three ways: \<^verbatim>\<open>break\<close> with the child scope found, \<^verbatim>\<open>return sym\<close>, or with
  \<^verbatim>\<open>scope == nullptr\<close> after the global scope.
\<close>

datatype walk = Break ScopePtr | Return "Symbol option" | Exhausted

function walkUp :: "Scope \<Rightarrow> ScopePtr \<Rightarrow> string list \<Rightarrow> walk" where
  "walkUp g sc parts =
     (case Scope_getChildScope (deref g sc) (hd parts) of
        Some child \<Rightarrow> Break (sc @ [child])
      | None \<Rightarrow>
          if length parts = 1 \<and> Scope_lookupLocal (deref g sc) (hd parts) \<noteq> None
          then Return (Scope_lookupLocal (deref g sc) (hd parts))
          else if sc \<noteq> [] then walkUp g (butlast sc) parts
          else Exhausted)"
  by pat_completeness auto
termination
  by (relation "measure (\<lambda>(g, sc, parts). length sc)") auto

declare walkUp.simps [simp del]

text \<open>The second loop: \<^verbatim>\<open>for (i = ...; i < parts.size() - 1; ++i)\<close> over child scopes.\<close>

fun descend :: "Scope \<Rightarrow> ScopePtr \<Rightarrow> string list \<Rightarrow> ScopePtr option" where
  "descend g currentSearch [] = Some currentSearch"
| "descend g currentSearch (part # rest) =
     (case Scope_getChildScope (deref g currentSearch) part of
        None \<Rightarrow> None
      | Some child \<Rightarrow> descend g (currentSearch @ [child]) rest)"

definition navigate ::
  "Scope \<Rightarrow> ScopePtr \<Rightarrow> nat \<Rightarrow> string list \<Rightarrow> Symbol option" where
  "navigate g currentSearch start parts =
     (case descend g currentSearch (drop start (butlast parts)) of
        None \<Rightarrow> None
      | Some found \<Rightarrow> Scope_lookupLocal (deref g found) (last parts))"

definition lookupScoped :: "SymbolTable \<Rightarrow> string list \<Rightarrow> bool \<Rightarrow> Symbol option" where
  "lookupScoped st parts isAbsolute =
     (if parts = [] then None
      else if \<not> isAbsolute \<and> length parts = 1
      then Scope_lookup (globalScope st) (currentScope st) (hd parts)
      else if \<not> isAbsolute then
        (case walkUp (globalScope st) (currentScope st) parts of
           Return r \<Rightarrow> r
         | Exhausted \<Rightarrow>
             if length parts > 1 then None
             else navigate (globalScope st) (currentScope st) 1 parts
         | Break searchScope \<Rightarrow> navigate (globalScope st) searchScope 1 parts)
      else navigate (globalScope st) [] 0 parts)"

text \<open>
  \<^verbatim>\<open>SymbolTable::parseQualifiedName\<close>: the loop over the index \<^verbatim>\<open>i\<close> is a recursion over
  the characters from \<^verbatim>\<open>i\<close> on, with \<^verbatim>\<open>current\<close> and \<^verbatim>\<open>parts\<close> as accumulators.
\<close>

fun splitParts :: "string \<Rightarrow> string \<Rightarrow> string list \<Rightarrow> string list" where
  "splitParts [] cur parts = (if cur \<noteq> [] then parts @ [cur] else parts)"
| "splitParts [c] cur parts = splitParts [] (cur @ [c]) parts"
| "splitParts (c # d # rest) cur parts =
     (if c = CHR '':'' \<and> d = CHR '':''
      then (if cur \<noteq> [] then splitParts rest [] (parts @ [cur])
            else splitParts rest cur parts)
      else splitParts (d # rest) (cur @ [c]) parts)"

definition startsWithColons :: "string \<Rightarrow> bool" where
  "startsWithColons nm = (length nm \<ge> 2 \<and> nm ! 0 = CHR '':'' \<and> nm ! 1 = CHR '':'')"

definition parseQualifiedName :: "string \<Rightarrow> string list" where
  "parseQualifiedName nm =
     splitParts (if startsWithColons nm then drop 2 nm else nm) [] []"

definition lookupQualified :: "SymbolTable \<Rightarrow> string \<Rightarrow> Symbol option" where
  "lookupQualified st qualifiedName =
     lookupScoped st (parseQualifiedName qualifiedName) (startsWithColons qualifiedName)"

section \<open>Tables the parser can build\<close>

text \<open>
  The parser changes its symbol table through three calls only: \<^verbatim>\<open>enterScope\<close>,
  \<^verbatim>\<open>leaveScope\<close> and \<^verbatim>\<open>addSymbol\<close>. A run of the parser is, for the table, a sequence
  of such calls, applied to the table \<^verbatim>\<open>SymbolTable()\<close> constructs.
\<close>

datatype TableOp = EnterScope string | LeaveScope | AddSymbol string SymbolKind "ASTNodePtr option"

fun applyOp :: "TableOp \<Rightarrow> SymbolTable \<Rightarrow> SymbolTable" where
  "applyOp (EnterScope nm) st = enterScope nm st"
| "applyOp LeaveScope st = leaveScope st"
| "applyOp (AddSymbol nm k nd) st = snd (addSymbol nm k nd st)"

definition run :: "TableOp list \<Rightarrow> SymbolTable \<Rightarrow> SymbolTable" where
  "run ops st = fold applyOp ops st"

text \<open>
  The names the parser passes are texts of \<^verbatim>\<open>Identifier\<close> tokens, which are not empty and
  hold no colon. The one exception is \<^verbatim>\<open>parseTypedef\<close>: \<^verbatim>\<open>parseDeclarator\<close> returns a
  declarator with an empty name where the identifier is missing, and \<^verbatim>\<open>parseTypedef\<close>
  adds a symbol for it.
\<close>

definition plainName :: "string \<Rightarrow> bool" where
  "plainName nm = (nm \<noteq> [] \<and> CHR '':'' \<notin> set nm)"

fun parserOp :: "TableOp \<Rightarrow> bool" where
  "parserOp (EnterScope nm) = plainName nm"
| "parserOp LeaveScope = True"
| "parserOp (AddSymbol nm k nd) = (nm = [] \<or> plainName nm)"

text \<open>The scopes of a table, and the symbols recorded in any of them.\<close>

fun validPtr :: "Scope \<Rightarrow> ScopePtr \<Rightarrow> bool" where
  "validPtr g [] = True"
| "validPtr g (i # p) = (i < length (children g) \<and> validPtr (children g ! i) p)"

fun allScopes :: "Scope \<Rightarrow> Scope list" where
  "allScopes (Scope nm fqn syms cs) = Scope nm fqn syms cs # concat (map allScopes cs)"

definition recorded :: "SymbolTable \<Rightarrow> Symbol \<Rightarrow> bool" where
  "recorded st x = (\<exists>s \<in> set (allScopes (globalScope st)). x \<in> ran (symbols s))"

text \<open>
  The invariant of the tables the parser builds: every symbol is stored under its own
  name with the fully qualified name of its scope in front, sibling scopes have
  different names, and a child scope's fully qualified name extends its parent's.
\<close>

definition qualify :: "string \<Rightarrow> string \<Rightarrow> string" where
  "qualify parentFqn nm = (if parentFqn = [] then nm else parentFqn @ ''::'' @ nm)"

fun wfScope :: "Scope \<Rightarrow> bool" where
  "wfScope (Scope nm fqn syms cs) =
     ((\<forall>k x. syms k = Some x \<longrightarrow>
          name x = k \<and> fullyQualifiedName x = qualify fqn k \<and> (k = [] \<or> plainName k))
      \<and> distinct (map scopeName cs)
      \<and> (\<forall>c \<in> set cs. plainName (scopeName c)
            \<and> scopeFqn c = qualify fqn (scopeName c) \<and> wfScope c))"

definition wfTable :: "SymbolTable \<Rightarrow> bool" where
  "wfTable st = (scopeFqn (globalScope st) = [] \<and> wfScope (globalScope st)
                 \<and> validPtr (globalScope st) (currentScope st))"

text \<open>
  The parser enters a scope only directly after it has added a symbol of the same
  name to the current scope (\<^verbatim>\<open>parseModule\<close>, \<^verbatim>\<open>parseInterface\<close>, \<^verbatim>\<open>parseStruct\<close>,
  \<^verbatim>\<open>parseUnion\<close>, \<^verbatim>\<open>parseException\<close>); \<open>entersAfter added ops\<close> says so of the calls
  \<open>ops\<close>, where \<open>added\<close> is the name of the symbol the call just before them added, if
  that call was \<^verbatim>\<open>addSymbol\<close>. In the tables so built every child scope is named like a
  symbol of the scope that holds it.
\<close>

fun entersAfter :: "string option \<Rightarrow> TableOp list \<Rightarrow> bool" where
  "entersAfter added [] = True"
| "entersAfter added (EnterScope nm # rest) = (added = Some nm \<and> entersAfter None rest)"
| "entersAfter added (LeaveScope # rest) = entersAfter None rest"
| "entersAfter added (AddSymbol nm k nd # rest) = entersAfter (Some nm) rest"

definition entersDeclared :: "TableOp list \<Rightarrow> bool" where
  "entersDeclared ops = entersAfter None ops"

fun childrenDeclared :: "Scope \<Rightarrow> bool" where
  "childrenDeclared (Scope nm fqn syms cs) =
     (\<forall>c \<in> set cs. syms (scopeName c) \<noteq> None \<and> childrenDeclared c)"

definition declaredTable :: "SymbolTable \<Rightarrow> bool" where
  "declaredTable st =
     (childrenDeclared (globalScope st) \<and> validPtr (globalScope st) (currentScope st))"

fun pathNames :: "Scope \<Rightarrow> ScopePtr \<Rightarrow> string list" where
  "pathNames g [] = []"
| "pathNames g (i # p) = scopeName (children g ! i) # pathNames (children g ! i) p"

fun joinWith :: "string list \<Rightarrow> string" where
  "joinWith [] = []"
| "joinWith [n] = n"
| "joinWith (n # m # ns) = n @ ''::'' @ joinWith (m # ns)"

section \<open>Scoped lookup as the specification describes it\<close>

text \<open>
  The resolution algorithm of the specification, written from its sentences and not
  from the code, to be compared with \<open>lookupScoped\<close>. Absolute: start at the global
  scope, walk \<open>parts[0..n-2]\<close> as child scopes, look \<open>parts[n-1]\<close> up locally. Relative:
  go from the current scope towards the global scope to the first scope that has
  either a child scope named \<open>parts[0]\<close> or, when there is one part only, a local symbol
  named \<open>parts[0]\<close>. With one part the last part, \<open>parts[0]\<close>, is looked up locally in
  the scope so found. With more parts the search goes on in its child scope named
  \<open>parts[0]\<close>, descends through \<open>parts[1..n-2]\<close> as child scopes and looks the last part
  up locally. Absent if any step fails.
\<close>

definition childNamed :: "Scope \<Rightarrow> string \<Rightarrow> nat option" where
  "childNamed s nm = List.find (\<lambda>i. scopeName (children s ! i) = nm) [0..<length (children s)]"

definition towardsGlobal :: "ScopePtr \<Rightarrow> ScopePtr list" where
  "towardsGlobal p = rev (prefixes p)"

definition walkChildren :: "Scope \<Rightarrow> ScopePtr \<Rightarrow> string list \<Rightarrow> ScopePtr option" where
  "walkChildren g start names =
     foldl (\<lambda>pos nm. case pos of
                       None \<Rightarrow> None
                     | Some p \<Rightarrow> map_option (\<lambda>i. p @ [i]) (childNamed (deref g p) nm))
           (Some start) names"

definition anchorFor :: "Scope \<Rightarrow> string list \<Rightarrow> ScopePtr \<Rightarrow> bool" where
  "anchorFor g parts a =
     (childNamed (deref g a) (parts ! 0) \<noteq> None
      \<or> (length parts = 1 \<and> symbols (deref g a) (parts ! 0) \<noteq> None))"

definition lookupScoped_spec :: "SymbolTable \<Rightarrow> string list \<Rightarrow> bool \<Rightarrow> Symbol option" where
  "lookupScoped_spec st parts isAbsolute =
     (let g = globalScope st; n = length parts
      in if isAbsolute then
           (case walkChildren g [] (take (n - 1) parts) of
              None \<Rightarrow> None
            | Some s \<Rightarrow> symbols (deref g s) (parts ! (n - 1)))
         else
           (case List.find (anchorFor g parts) (towardsGlobal (currentScope st)) of
              None \<Rightarrow> None
            | Some a \<Rightarrow>
                if n = 1 then symbols (deref g a) (parts ! (n - 1))
                else
                  (case childNamed (deref g a) (parts ! 0) of
                     None \<Rightarrow> None
                   | Some i \<Rightarrow>
                       (case walkChildren g (a @ [i]) (take (n - 2) (drop 1 parts)) of
                          None \<Rightarrow> None
                        | Some s \<Rightarrow> symbols (deref g s) (parts ! (n - 1))))))"

section \<open>Tokens and the token source (lexer/lexer.hpp)\<close>

text \<open>\<^verbatim>\<open>std::to_string\<close> of a \<^verbatim>\<open>size_t\<close>: the decimal digits.\<close>

definition digitChar :: "nat \<Rightarrow> char" where
  "digitChar d = ''0123456789'' ! d"

function to_string :: "nat \<Rightarrow> string" where
  "to_string n = (if n < 10 then [digitChar n] else to_string (n div 10) @ [digitChar (n mod 10)])"
  by pat_completeness auto
termination
  by (relation "measure id") auto

declare to_string.simps [simp del]

record SourceLocation =
  filename :: string
  line :: nat
  column :: nat

definition SourceLocation_toString :: "SourceLocation \<Rightarrow> string" where
  "SourceLocation_toString loc =
     filename loc @ '':'' @ to_string (line loc) @ '':'' @ to_string (column loc)"

datatype (plugins only: size) TokenType =
    Eof
  | Identifier | IntegerLiteral | FloatLiteral | StringLiteral | CharLiteral
  | WideStringLiteral | WideCharLiteral
  | KwModule | KwInterface | KwStruct | KwUnion | KwSwitch | KwCase | KwDefault | KwEnum
  | KwConst | KwTypedef | KwException | KwAttribute | KwReadonly | KwIn | KwOut | KwInout
  | KwOneway | KwRaises | KwContext | KwSequence | KwString | KwWstring | KwFixed
  | KwAbstract | KwLocal | KwNative | KwValuetype | KwTruncatable | KwSupports | KwPublic
  | KwPrivate | KwFactory | KwCustom
  | KwVoid | KwBoolean | KwChar | KwWchar | KwOctet | KwShort | KwLong | KwFloat | KwDouble
  | KwUnsigned | KwAny | KwObject | KwTrue | KwFalse
  | Semicolon | Colon | DoubleColon | Comma | LeftBrace | RightBrace | LeftParen | RightParen
  | LeftBracket | RightBracket | LeftAngle | RightAngle | Equals | Plus | Minus | Star | Slash
  | Percent | Ampersand | Pipe | Caret | Tilde | LeftShift | RightShift
  | Pragma | LineDirective | Unknown

text \<open>\<^verbatim>\<open>using TokenValue = std::variant<std::monostate, int64_t, uint64_t, double, std::string, char>\<close>\<close>

datatype TokenValue =
    TV_monostate
  | TV_int64 "64 word"
  | TV_uint64 "64 word"
  | TV_double double
  | TV_string string
  | TV_char char

record Token =
  tokType :: TokenType
  tokValue :: TokenValue
  tokText :: string
  tokLocation :: SourceLocation

record LexerError =
  lexMessage :: string
  lexLocation :: SourceLocation

text \<open>
  The parser reads the lexer only through \<^verbatim>\<open>nextToken()\<close> and \<^verbatim>\<open>getErrors()\<close>. The lexer
  is represented by what its remaining scans will return: for each scan the token and
  the errors that scan appends to the lexer's error list. The source text is finite and
  each scan of a token consumes at least one character, so this list is finite, and
  past the end of the source every scan returns \<^verbatim>\<open>Eof\<close> at the final position.
\<close>

record Lexer =
  scans :: "(Token \<times> LexerError list) list"
  lexErrors :: "LexerError list"
  endLocation :: SourceLocation

definition nextToken :: "Lexer \<Rightarrow> Token \<times> Lexer" where
  "nextToken lx =
     (case scans lx of
        [] \<Rightarrow> (\<lparr> tokType = Eof, tokValue = TV_monostate, tokText = [],
                  tokLocation = endLocation lx \<rparr>, lx)
      | (tok, errs) # rest \<Rightarrow>
          (tok, lx\<lparr> scans := rest, lexErrors := lexErrors lx @ errs \<rparr>))"

section \<open>Parser state, token helpers and error recovery (parser/parser)\<close>

record ParserError =
  errMessage :: string
  errLocation :: SourceLocation
  isWarning :: bool

record Parser =
  lexer :: Lexer
  currentToken :: Token
  previousToken :: Token
  errors :: "ParserError list"
  symbolTable :: SymbolTable
  hadError :: bool
  panicMode :: bool

text \<open>
  \<^verbatim>\<open>Parser::advance\<close>: the loop skips line directives and, for every \<^verbatim>\<open>Unknown\<close>
  token, copies the lexer's whole error list into \<^verbatim>\<open>errors\<close>.
\<close>

definition fromLexerError :: "LexerError \<Rightarrow> ParserError" where
  "fromLexerError e = \<lparr> errMessage = lexMessage e, errLocation = lexLocation e, isWarning = False \<rparr>"

function advanceLoop :: "Parser \<Rightarrow> Parser" where
  "advanceLoop p =
     (let r = nextToken (lexer p);
          p1 = p\<lparr> lexer := snd r, currentToken := fst r \<rparr>
      in if tokType (fst r) = LineDirective then advanceLoop p1
         else if tokType (fst r) \<noteq> Unknown then p1
         else advanceLoop
                (p1\<lparr> errors := errors p1 @ map fromLexerError (lexErrors (snd r)) \<rparr>))"
  by pat_completeness auto
termination
  by (relation "measure (\<lambda>p. length (scans (lexer p)))")
     (auto simp: nextToken_def split: list.splits)

declare advanceLoop.simps [simp del]

definition advance :: "Parser \<Rightarrow> Parser" where
  "advance p = advanceLoop (p\<lparr> previousToken := currentToken p \<rparr>)"

definition check :: "Parser \<Rightarrow> TokenType \<Rightarrow> bool" where
  "check p ty = (tokType (currentToken p) = ty)"

definition match :: "TokenType \<Rightarrow> Parser \<Rightarrow> bool \<times> Parser" where
  "match ty p = (if check p ty then (True, advance p) else (False, p))"

text \<open>A piece of message text between single quotes, as in \<^verbatim>\<open>"Expected ';'"\<close>.\<close>

definition quoted :: "string \<Rightarrow> string" where
  "quoted s = [CHR 0x27] @ s @ [CHR 0x27]"

definition errorAt :: "Token \<Rightarrow> string \<Rightarrow> Parser \<Rightarrow> Parser" where
  "errorAt token msg p =
     (if panicMode p then p
      else p\<lparr> panicMode := True, hadError := True,
              errors := errors p @
                [\<lparr> errMessage =
                     SourceLocation_toString (tokLocation token) @ '': error: '' @ msg @
                     (if tokType token = Eof then '' at end of file''
                      else if tokType token \<noteq> Unknown
                      then '' (got '' @ quoted (tokText token) @ '')''
                      else []),
                   errLocation = tokLocation token, isWarning = False \<rparr>] \<rparr>)"

definition error :: "string \<Rightarrow> Parser \<Rightarrow> Parser" where
  "error msg p = errorAt (currentToken p) msg p"

definition warning :: "string \<Rightarrow> Parser \<Rightarrow> Parser" where
  "warning msg p =
     p\<lparr> errors := errors p @
          [\<lparr> errMessage =
               SourceLocation_toString (tokLocation (currentToken p)) @ '': warning: '' @ msg,
             errLocation = tokLocation (currentToken p), isWarning = True \<rparr>] \<rparr>"

definition expect :: "TokenType \<Rightarrow> string \<Rightarrow> Parser \<Rightarrow> Parser" where
  "expect ty msg p = (if check p ty then advance p else errorAt (currentToken p) msg p)"

definition expectSemicolon :: "Parser \<Rightarrow> Parser" where
  "expectSemicolon p = expect Semicolon (''Expected '' @ quoted '';'') p"

definition isDefinitionStart :: "Parser \<Rightarrow> bool" where
  "isDefinitionStart p =
     (tokType (currentToken p) \<in>
        {KwModule, KwInterface, KwStruct, KwUnion, KwEnum, KwTypedef, KwConst, KwException,
         KwAbstract, KwLocal})"

text \<open>
  What is left to read: the scans not yet made, and the current token unless it is
  \<^verbatim>\<open>Eof\<close>. Every \<^verbatim>\<open>advance\<close> from a token other than \<^verbatim>\<open>Eof\<close> makes it smaller, which is
  why the loop of \<^verbatim>\<open>synchronize\<close> ends.
\<close>

definition remaining :: "Parser \<Rightarrow> nat" where
  "remaining p = length (scans (lexer p)) + (if check p Eof then 0 else 1)"

lemma advanceLoop_remaining:
  "remaining (advanceLoop p) \<le> length (scans (lexer p))"
proof (induction p rule: advanceLoop.induct)
  case (1 p)
  show ?case
  proof (cases "scans (lexer p)")
    case Nil
    then show ?thesis
      by (subst advanceLoop.simps) (simp add: nextToken_def remaining_def check_def)
  next
    case (Cons a rest)
    obtain tok errs where a: "a = (tok, errs)" by (cases a)
    let ?lx = "(lexer p)\<lparr> scans := rest, lexErrors := lexErrors (lexer p) @ errs \<rparr>"
    have r: "nextToken (lexer p) = (tok, ?lx)" using Cons a by (simp add: nextToken_def)
    consider "tokType tok = LineDirective" | "tokType tok = Unknown"
      | "tokType tok \<noteq> LineDirective" "tokType tok \<noteq> Unknown" by blast
    then show ?thesis
    proof cases
      case 1
      then show ?thesis
        using "1.IH"(1)[OF refl refl] r Cons by (subst advanceLoop.simps) (simp add: Let_def)
    next
      case 2
      then show ?thesis
        using "1.IH"(2)[OF refl refl] r Cons by (subst advanceLoop.simps) (simp add: Let_def)
    next
      case 3
      then show ?thesis
        using r Cons by (subst advanceLoop.simps) (simp add: Let_def remaining_def)
    qed
  qed
qed

lemma advance_remaining: "\<not> check p Eof \<Longrightarrow> remaining (advance p) < remaining p"
  using advanceLoop_remaining[of "p\<lparr> previousToken := currentToken p \<rparr>"]
  by (simp add: advance_def remaining_def check_def)

lemma advance_remaining_le: "remaining (advance p) \<le> remaining p"
  using advanceLoop_remaining[of "p\<lparr> previousToken := currentToken p \<rparr>"]
  by (simp add: advance_def remaining_def)

text \<open>\<^verbatim>\<open>Parser::synchronize\<close>\<close>

function synchronizeLoop :: "Parser \<Rightarrow> Parser" where
  "synchronizeLoop p =
     (if check p Eof then p
      else if tokType (previousToken p) = Semicolon then p
      else if tokType (previousToken p) = RightBrace
      then (if check p Semicolon then advance p else p)
      else if isDefinitionStart p then p
      else synchronizeLoop (advance p))"
  by pat_completeness auto
termination
  by (relation "measure remaining") (auto simp: advance_remaining)

declare synchronizeLoop.simps [simp del]

definition synchronize :: "Parser \<Rightarrow> Parser" where
  "synchronize p = synchronizeLoop (p\<lparr> panicMode := False \<rparr>)"

section \<open>Syntax tree (ast/ast.hpp)\<close>

text \<open>
  The nodes the functions below build or read. The \<^verbatim>\<open>location\<close> every node carries is
  left out: nothing below reads it. A \<^verbatim>\<open>size_t\<close> is a natural number below \<open>2 ^ 64\<close>.
\<close>

datatype BasicType =
    BT_Void | BT_Boolean | BT_Char | BT_WChar | BT_Octet | BT_Short | BT_UShort | BT_Long
  | BT_ULong | BT_LongLong | BT_ULongLong | BT_Float | BT_Double | BT_LongDouble | BT_Any
  | BT_Object

datatype TypeNode =
    BasicTypeNode BasicType
  | SequenceTypeNode TypeNode "nat option"
  | StringTypeNode "nat option" bool
  | ScopedNameNode "string list" bool
  | ArrayTypeNode TypeNode "nat list"

record StructMemberNode =
  memberType :: TypeNode
  memberName :: string

record StructNode =
  structName :: string
  structFqn :: string
  members :: "StructMemberNode list"

record EnumNode =
  enumName :: string
  enumFqn :: string
  enumerators :: "string list"

record TypedefDeclarator =
  declName :: string
  arrayDimensions :: "nat list"

record TypedefNode =
  typedefName :: string
  typedefFqn :: string
  originalType :: TypeNode
  declarators :: "TypedefDeclarator list"

record ConstNode =
  constName :: string
  constFqn :: string
  constType :: TypeNode
  constValue :: ConstValue

section \<open>Constant folding (Parser::parseConstExpr and below)\<close>

text \<open>
  What ends an evaluation other than a returned value: the recursion bound of the
  definitions below, \<^verbatim>\<open>std::bad_variant_access\<close> thrown by \<^verbatim>\<open>std::get\<close>, \<^verbatim>\<open>back()\<close> of
  an empty vector, a \<^verbatim>\<open>static_cast\<close> of a node pointer to a class the node is not of,
  and the signal \<^verbatim>\<open>SIGFPE\<close> that ends the process when the integer division instruction
  faults.
\<close>

datatype Abort = OutOfFuel | BadVariantAccess | BackOfEmptyVector | BadCast | SignalFPE

text \<open>
  Arithmetic on \<^verbatim>\<open>int64_t\<close> is two's complement on 64 bits. Where C++ leaves the result
  of an operator undefined, the definitions give what the instructions of the compiled
  parser do on x86-64: \<^verbatim>\<open>+\<close>, \<^verbatim>\<open>-\<close>, \<^verbatim>\<open>*\<close> and the unary \<^verbatim>\<open>-\<close> wrap around, \<^verbatim>\<open><<\<close> and
  \<^verbatim>\<open>>>\<close> take the shift count modulo 64 (its low six bits) and \<^verbatim>\<open>>>\<close> fills with the
  sign, and \<^verbatim>\<open>/\<close> and \<^verbatim>\<open>%\<close>, which truncate towards zero, fault on a zero divisor and
  on \<open>- 2 ^ 63\<close> divided by \<open>- 1\<close>, whose quotient is no \<^verbatim>\<open>int64_t\<close>.
\<close>

definition int64_faults :: "64 word \<Rightarrow> 64 word \<Rightarrow> bool" where
  "int64_faults l r = (r = 0 \<or> (sint l = - (2 ^ 63) \<and> sint r = - 1))"

definition int64_div :: "64 word \<Rightarrow> 64 word \<Rightarrow> Abort + 64 word" where
  "int64_div l r =
     (if int64_faults l r then Inl SignalFPE else Inr (word_of_int (sint l sdiv sint r)))"

definition int64_mod :: "64 word \<Rightarrow> 64 word \<Rightarrow> Abort + 64 word" where
  "int64_mod l r =
     (if int64_faults l r then Inl SignalFPE else Inr (word_of_int (sint l smod sint r)))"

definition int64_shl :: "64 word \<Rightarrow> 64 word \<Rightarrow> 64 word" where
  "int64_shl l r = push_bit (unat (r AND 63)) l"

definition int64_shr :: "64 word \<Rightarrow> 64 word \<Rightarrow> 64 word" where
  "int64_shr l r = signed_drop_bit (unat (r AND 63)) l"

text \<open>
  Arithmetic on \<^verbatim>\<open>double\<close>: the exact result rounded to the nearest value of the format,
  to the one with an even last digit when two are equally near. \<open>spacing x\<close> is the
  distance between neighbouring values of the format at the magnitude \<open>x\<close>: 53
  significant bits, and \<open>2 ^ - 1074\<close> below \<open>2 ^ - 1022\<close>. A rounded magnitude of
  \<open>2 ^ 1024\<close> or more is an infinity.
\<close>

definition roundHalfEven :: "real \<Rightarrow> int" where
  "roundHalfEven x =
     (let f = \<lfloor>x\<rfloor>; d = x - of_int f
      in if d < 1 / 2 then f else if 1 / 2 < d then f + 1 else if even f then f else f + 1)"

definition spacing :: "real \<Rightarrow> real" where
  "spacing x = 2 powr (of_int (max \<lfloor>log 2 x\<rfloor> (- 1022)) - 52)"

definition roundToDouble :: "bool \<Rightarrow> real \<Rightarrow> double" where
  "roundToDouble negative x =
     (if x = 0 then Finite negative 0
      else (let m = of_int (roundHalfEven (x / spacing x)) * spacing x
            in if 2 ^ 1024 \<le> m then Infinity negative else Finite negative m))"

fun dNeg :: "double \<Rightarrow> double" where
  "dNeg (Finite s x) = Finite (\<not> s) x"
| "dNeg (Infinity s) = Infinity (\<not> s)"
| "dNeg NaN = NaN"

text \<open>
  A sum that is exactly zero is the negative zero when both operands are negative (two
  negative zeros) and the positive zero otherwise.
\<close>

fun dAdd :: "double \<Rightarrow> double \<Rightarrow> double" where
  "dAdd (Finite s x) (Finite t y) =
     (let r = (if s then - x else x) + (if t then - y else y)
      in if r = 0 then Finite (s \<and> t) 0 else roundToDouble (r < 0) \<bar>r\<bar>)"
| "dAdd NaN _ = NaN"
| "dAdd _ NaN = NaN"
| "dAdd (Infinity s) (Infinity t) = (if s = t then Infinity s else NaN)"
| "dAdd (Infinity s) (Finite t y) = Infinity s"
| "dAdd (Finite s x) (Infinity t) = Infinity t"

definition dSub :: "double \<Rightarrow> double \<Rightarrow> double" where
  "dSub x y = dAdd x (dNeg y)"

text \<open>The sign of a product and of a quotient is negative when one operand is.\<close>

fun dMul :: "double \<Rightarrow> double \<Rightarrow> double" where
  "dMul (Finite s x) (Finite t y) = roundToDouble (s \<noteq> t) (x * y)"
| "dMul NaN _ = NaN"
| "dMul _ NaN = NaN"
| "dMul (Finite s x) (Infinity t) = (if x = 0 then NaN else Infinity (s \<noteq> t))"
| "dMul (Infinity s) (Finite t y) = (if y = 0 then NaN else Infinity (s \<noteq> t))"
| "dMul (Infinity s) (Infinity t) = Infinity (s \<noteq> t)"

fun dDiv :: "double \<Rightarrow> double \<Rightarrow> double" where
  "dDiv (Finite s x) (Finite t y) =
     (if y = 0 then (if x = 0 then NaN else Infinity (s \<noteq> t))
      else roundToDouble (s \<noteq> t) (x / y))"
| "dDiv NaN _ = NaN"
| "dDiv _ NaN = NaN"
| "dDiv (Finite s x) (Infinity t) = Finite (s \<noteq> t) 0"
| "dDiv (Infinity s) (Finite t y) = Infinity (s \<noteq> t)"
| "dDiv (Infinity s) (Infinity t) = NaN"

text \<open>
  The assignments to \<^verbatim>\<open>left\<close> in the loops of \<^verbatim>\<open>parseOrExpr\<close> ... \<^verbatim>\<open>parseMulExpr\<close>, one
  for each operator: the nested \<^verbatim>\<open>std::get_if\<close> tests, with \<^verbatim>\<open>left\<close> kept where no
  branch assigns. Those of \<^verbatim>\<open>/\<close> and \<^verbatim>\<open>%\<close> test the right operand for zero in the
  \<^verbatim>\<open>int64_t\<close> branch only, and can end in the fault of the division.
\<close>

definition foldOr :: "ConstValue \<Rightarrow> ConstValue \<Rightarrow> ConstValue" where
  "foldOr left right =
     (case left of
        CV_int64 l \<Rightarrow> (case right of CV_int64 r \<Rightarrow> CV_int64 (l OR r) | _ \<Rightarrow> left)
      | _ \<Rightarrow> left)"

definition foldXor :: "ConstValue \<Rightarrow> ConstValue \<Rightarrow> ConstValue" where
  "foldXor left right =
     (case left of
        CV_int64 l \<Rightarrow> (case right of CV_int64 r \<Rightarrow> CV_int64 (l XOR r) | _ \<Rightarrow> left)
      | _ \<Rightarrow> left)"

definition foldAnd :: "ConstValue \<Rightarrow> ConstValue \<Rightarrow> ConstValue" where
  "foldAnd left right =
     (case left of
        CV_int64 l \<Rightarrow> (case right of CV_int64 r \<Rightarrow> CV_int64 (l AND r) | _ \<Rightarrow> left)
      | _ \<Rightarrow> left)"

definition foldShl :: "ConstValue \<Rightarrow> ConstValue \<Rightarrow> ConstValue" where
  "foldShl left right =
     (case left of
        CV_int64 l \<Rightarrow> (case right of CV_int64 r \<Rightarrow> CV_int64 (int64_shl l r) | _ \<Rightarrow> left)
      | _ \<Rightarrow> left)"

definition foldShr :: "ConstValue \<Rightarrow> ConstValue \<Rightarrow> ConstValue" where
  "foldShr left right =
     (case left of
        CV_int64 l \<Rightarrow> (case right of CV_int64 r \<Rightarrow> CV_int64 (int64_shr l r) | _ \<Rightarrow> left)
      | _ \<Rightarrow> left)"

definition foldPlus :: "ConstValue \<Rightarrow> ConstValue \<Rightarrow> ConstValue" where
  "foldPlus left right =
     (case left of
        CV_int64 l \<Rightarrow> (case right of CV_int64 r \<Rightarrow> CV_int64 (l + r) | _ \<Rightarrow> left)
      | CV_double l \<Rightarrow> (case right of CV_double r \<Rightarrow> CV_double (dAdd l r) | _ \<Rightarrow> left)
      | _ \<Rightarrow> left)"

definition foldMinus :: "ConstValue \<Rightarrow> ConstValue \<Rightarrow> ConstValue" where
  "foldMinus left right =
     (case left of
        CV_int64 l \<Rightarrow> (case right of CV_int64 r \<Rightarrow> CV_int64 (l - r) | _ \<Rightarrow> left)
      | CV_double l \<Rightarrow> (case right of CV_double r \<Rightarrow> CV_double (dSub l r) | _ \<Rightarrow> left)
      | _ \<Rightarrow> left)"

definition foldStar :: "ConstValue \<Rightarrow> ConstValue \<Rightarrow> ConstValue" where
  "foldStar left right =
     (case left of
        CV_int64 l \<Rightarrow> (case right of CV_int64 r \<Rightarrow> CV_int64 (l * r) | _ \<Rightarrow> left)
      | CV_double l \<Rightarrow> (case right of CV_double r \<Rightarrow> CV_double (dMul l r) | _ \<Rightarrow> left)
      | _ \<Rightarrow> left)"

definition foldSlash :: "ConstValue \<Rightarrow> ConstValue \<Rightarrow> Abort + ConstValue" where
  "foldSlash left right =
     (case left of
        CV_int64 l \<Rightarrow>
          (case right of
             CV_int64 r \<Rightarrow>
               if r \<noteq> 0
               then (case int64_div l r of Inl e \<Rightarrow> Inl e | Inr q \<Rightarrow> Inr (CV_int64 q))
               else Inr left
           | _ \<Rightarrow> Inr left)
      | CV_double l \<Rightarrow>
          (case right of CV_double r \<Rightarrow> Inr (CV_double (dDiv l r)) | _ \<Rightarrow> Inr left)
      | _ \<Rightarrow> Inr left)"

definition foldPercent :: "ConstValue \<Rightarrow> ConstValue \<Rightarrow> Abort + ConstValue" where
  "foldPercent left right =
     (case left of
        CV_int64 l \<Rightarrow>
          (case right of
             CV_int64 r \<Rightarrow>
               if r \<noteq> 0
               then (case int64_mod l r of Inl e \<Rightarrow> Inl e | Inr q \<Rightarrow> Inr (CV_int64 q))
               else Inr left
           | _ \<Rightarrow> Inr left)
      | _ \<Rightarrow> Inr left)"

definition negate :: "ConstValue \<Rightarrow> ConstValue" where
  "negate val =
     (case val of CV_int64 v \<Rightarrow> CV_int64 (- v) | CV_double v \<Rightarrow> CV_double (dNeg v) | _ \<Rightarrow> val)"

definition complement :: "ConstValue \<Rightarrow> ConstValue" where
  "complement val = (case val of CV_int64 v \<Rightarrow> CV_int64 (NOT v) | _ \<Rightarrow> val)"

text \<open>
  The loops \<^verbatim>\<open>do { if (!check(Identifier)) { ...; break; } parts.push_back(text);
  advance(); } while (match(separator));\<close> of \<^verbatim>\<open>parsePrimaryExpr\<close>, \<^verbatim>\<open>parseScopedName\<close>
  and \<^verbatim>\<open>parseEnum\<close>; \<open>onMissing\<close> is what the loop does before \<^verbatim>\<open>break\<close>.
\<close>

function identifierLoop ::
  "TokenType \<Rightarrow> (Parser \<Rightarrow> Parser) \<Rightarrow> string list \<Rightarrow> Parser \<Rightarrow> string list \<times> Parser" where
  "identifierLoop separator onMissing parts p =
     (if \<not> check p Identifier then (parts, onMissing p)
      else if check (advance p) separator
      then identifierLoop separator onMissing (parts @ [tokText (currentToken p)])
             (advance (advance p))
      else (parts @ [tokText (currentToken p)], advance p))"
  by pat_completeness auto
termination
proof (relation "measure (\<lambda>(separator, onMissing, parts, p). remaining p)")
  show "wf (measure (\<lambda>(separator, onMissing, parts, p). remaining p))" by simp
next
  fix separator :: TokenType and onMissing :: "Parser \<Rightarrow> Parser"
    and parts :: "string list" and p :: Parser
  assume a: "\<not> \<not> check p Identifier"
  from a have "\<not> check p Eof" by (simp add: check_def)
  then have "remaining (advance p) < remaining p" by (rule advance_remaining)
  moreover have "remaining (advance (advance p)) \<le> remaining (advance p)"
    by (rule advance_remaining_le)
  ultimately show
    "((separator, onMissing, parts @ [tokText (currentToken p)], advance (advance p)),
      (separator, onMissing, parts, p))
     \<in> measure (\<lambda>(separator, onMissing, parts, p). remaining p)"
    by simp
qed

declare identifierLoop.simps [simp del]

text \<open>
  The expression grammar. Each function takes a bound on the depth of calls, one less
  in every call and in every loop iteration; \<open>Inl OutOfFuel\<close> is returned where it is
  used up.
\<close>

definition resolveConstant :: "string list \<Rightarrow> bool \<Rightarrow> Parser \<Rightarrow> Abort + ConstValue \<times> Parser" where
  "resolveConstant parts isAbsolute p =
     (let unknown =
            (if parts = [] then Inl BackOfEmptyVector
             else Inr (CV_int64 0, warning (''Unknown constant: '' @ last parts) p))
      in case lookupScoped (symbolTable p) parts isAbsolute of
           None \<Rightarrow> unknown
         | Some smb \<Rightarrow>
             if kind smb = SK_Constant \<and> node smb \<noteq> None
             then (case node smb of
                     Some (ConstNodePtr v) \<Rightarrow> Inr (v, p)
                   | _ \<Rightarrow> Inl BadCast)
             else if kind smb = SK_EnumValue then Inr (CV_int64 0, p)
             else unknown)"


function parseConstExpr :: "nat \<Rightarrow> Parser \<Rightarrow> Abort + ConstValue \<times> Parser"
  and parseOrExpr :: "nat \<Rightarrow> Parser \<Rightarrow> Abort + ConstValue \<times> Parser"
  and orLoop :: "nat \<Rightarrow> ConstValue \<Rightarrow> Parser \<Rightarrow> Abort + ConstValue \<times> Parser"
  and parseXorExpr :: "nat \<Rightarrow> Parser \<Rightarrow> Abort + ConstValue \<times> Parser"
  and xorLoop :: "nat \<Rightarrow> ConstValue \<Rightarrow> Parser \<Rightarrow> Abort + ConstValue \<times> Parser"
  and parseAndExpr :: "nat \<Rightarrow> Parser \<Rightarrow> Abort + ConstValue \<times> Parser"
  and andLoop :: "nat \<Rightarrow> ConstValue \<Rightarrow> Parser \<Rightarrow> Abort + ConstValue \<times> Parser"
  and parseShiftExpr :: "nat \<Rightarrow> Parser \<Rightarrow> Abort + ConstValue \<times> Parser"
  and shiftLoop :: "nat \<Rightarrow> ConstValue \<Rightarrow> Parser \<Rightarrow> Abort + ConstValue \<times> Parser"
  and parseAddExpr :: "nat \<Rightarrow> Parser \<Rightarrow> Abort + ConstValue \<times> Parser"
  and addLoop :: "nat \<Rightarrow> ConstValue \<Rightarrow> Parser \<Rightarrow> Abort + ConstValue \<times> Parser"
  and parseMulExpr :: "nat \<Rightarrow> Parser \<Rightarrow> Abort + ConstValue \<times> Parser"
  and mulLoop :: "nat \<Rightarrow> ConstValue \<Rightarrow> Parser \<Rightarrow> Abort + ConstValue \<times> Parser"
  and parseUnaryExpr :: "nat \<Rightarrow> Parser \<Rightarrow> Abort + ConstValue \<times> Parser"
  and parsePrimaryExpr :: "nat \<Rightarrow> Parser \<Rightarrow> Abort + ConstValue \<times> Parser"
where
  "parseConstExpr 0 p = Inl OutOfFuel"
| "parseConstExpr (Suc n) p = parseOrExpr n p"
| "parseOrExpr 0 p = Inl OutOfFuel"
| "parseOrExpr (Suc n) p =
     (case parseXorExpr n p of Inl e \<Rightarrow> Inl e | Inr (left, p1) \<Rightarrow> orLoop n left p1)"
| "orLoop 0 left p = Inl OutOfFuel"
| "orLoop (Suc n) left p =
     (if check p Pipe then
        (case parseXorExpr n (advance p) of
           Inl e \<Rightarrow> Inl e
         | Inr (right, p1) \<Rightarrow> orLoop n (foldOr left right) p1)
      else Inr (left, p))"
| "parseXorExpr 0 p = Inl OutOfFuel"
| "parseXorExpr (Suc n) p =
     (case parseAndExpr n p of Inl e \<Rightarrow> Inl e | Inr (left, p1) \<Rightarrow> xorLoop n left p1)"
| "xorLoop 0 left p = Inl OutOfFuel"
| "xorLoop (Suc n) left p =
     (if check p Caret then
        (case parseAndExpr n (advance p) of
           Inl e \<Rightarrow> Inl e
         | Inr (right, p1) \<Rightarrow> xorLoop n (foldXor left right) p1)
      else Inr (left, p))"
| "parseAndExpr 0 p = Inl OutOfFuel"
| "parseAndExpr (Suc n) p =
     (case parseShiftExpr n p of Inl e \<Rightarrow> Inl e | Inr (left, p1) \<Rightarrow> andLoop n left p1)"
| "andLoop 0 left p = Inl OutOfFuel"
| "andLoop (Suc n) left p =
     (if check p Ampersand then
        (case parseShiftExpr n (advance p) of
           Inl e \<Rightarrow> Inl e
         | Inr (right, p1) \<Rightarrow> andLoop n (foldAnd left right) p1)
      else Inr (left, p))"
| "parseShiftExpr 0 p = Inl OutOfFuel"
| "parseShiftExpr (Suc n) p =
     (case parseAddExpr n p of Inl e \<Rightarrow> Inl e | Inr (left, p1) \<Rightarrow> shiftLoop n left p1)"
| "shiftLoop 0 left p = Inl OutOfFuel"
| "shiftLoop (Suc n) left p =
     (if check p LeftShift then
        (case parseAddExpr n (advance p) of
           Inl e \<Rightarrow> Inl e
         | Inr (right, p1) \<Rightarrow> shiftLoop n (foldShl left right) p1)
      else if check p RightShift then
        (case parseAddExpr n (advance p) of
           Inl e \<Rightarrow> Inl e
         | Inr (right, p1) \<Rightarrow> shiftLoop n (foldShr left right) p1)
      else Inr (left, p))"
| "parseAddExpr 0 p = Inl OutOfFuel"
| "parseAddExpr (Suc n) p =
     (case parseMulExpr n p of Inl e \<Rightarrow> Inl e | Inr (left, p1) \<Rightarrow> addLoop n left p1)"
| "addLoop 0 left p = Inl OutOfFuel"
| "addLoop (Suc n) left p =
     (if check p Plus then
        (case parseMulExpr n (advance p) of
           Inl e \<Rightarrow> Inl e
         | Inr (right, p1) \<Rightarrow> addLoop n (foldPlus left right) p1)
      else if check p Minus then
        (case parseMulExpr n (advance p) of
           Inl e \<Rightarrow> Inl e
         | Inr (right, p1) \<Rightarrow> addLoop n (foldMinus left right) p1)
      else Inr (left, p))"
| "parseMulExpr 0 p = Inl OutOfFuel"
| "parseMulExpr (Suc n) p =
     (case parseUnaryExpr n p of Inl e \<Rightarrow> Inl e | Inr (left, p1) \<Rightarrow> mulLoop n left p1)"
| "mulLoop 0 left p = Inl OutOfFuel"
| "mulLoop (Suc n) left p =
     (if check p Star then
        (case parseUnaryExpr n (advance p) of
           Inl e \<Rightarrow> Inl e
         | Inr (right, p1) \<Rightarrow> mulLoop n (foldStar left right) p1)
      else if check p Slash then
        (case parseUnaryExpr n (advance p) of
           Inl e \<Rightarrow> Inl e
         | Inr (right, p1) \<Rightarrow>
             (case foldSlash left right of
                Inl e \<Rightarrow> Inl e
              | Inr folded \<Rightarrow> mulLoop n folded p1))
      else if check p Percent then
        (case parseUnaryExpr n (advance p) of
           Inl e \<Rightarrow> Inl e
         | Inr (right, p1) \<Rightarrow>
             (case foldPercent left right of
                Inl e \<Rightarrow> Inl e
              | Inr folded \<Rightarrow> mulLoop n folded p1))
      else Inr (left, p))"
| "parseUnaryExpr 0 p = Inl OutOfFuel"
| "parseUnaryExpr (Suc n) p =
     (if check p Minus then
        (case parseUnaryExpr n (advance p) of
           Inl e \<Rightarrow> Inl e
         | Inr (val, p1) \<Rightarrow> Inr (negate val, p1))
      else if check p Plus then parseUnaryExpr n (advance p)
      else if check p Tilde then
        (case parseUnaryExpr n (advance p) of
           Inl e \<Rightarrow> Inl e
         | Inr (val, p1) \<Rightarrow> Inr (complement val, p1))
      else parsePrimaryExpr n p)"
| "parsePrimaryExpr 0 p = Inl OutOfFuel"
| "parsePrimaryExpr (Suc n) p =
     (if check p LeftParen then
        (case parseConstExpr n (advance p) of
           Inl e \<Rightarrow> Inl e
         | Inr (val, p1) \<Rightarrow> Inr (val, expect RightParen (''Expected '' @ quoted '')'') p1))
      else if check p IntegerLiteral then
        (case tokValue (currentToken p) of
           TV_int64 val \<Rightarrow> Inr (CV_int64 val, advance p)
         | _ \<Rightarrow> Inl BadVariantAccess)
      else if check p FloatLiteral then
        (case tokValue (currentToken p) of
           TV_double val \<Rightarrow> Inr (CV_double val, advance p)
         | _ \<Rightarrow> Inl BadVariantAccess)
      else if check p StringLiteral \<or> check p WideStringLiteral then
        (case tokValue (currentToken p) of
           TV_string val \<Rightarrow> Inr (CV_string val, advance p)
         | _ \<Rightarrow> Inl BadVariantAccess)
      else if check p CharLiteral \<or> check p WideCharLiteral then
        (case tokValue (currentToken p) of
           TV_char val \<Rightarrow> Inr (CV_string [val], advance p)
         | _ \<Rightarrow> Inl BadVariantAccess)
      else if check p KwTrue then Inr (CV_bool True, advance p)
      else if check p KwFalse then Inr (CV_bool False, advance p)
      else if check p Identifier \<or> check p DoubleColon then
        (let (isAbsolute, p1) = match DoubleColon p;
             (parts, p2) = identifierLoop DoubleColon id [] p1
         in resolveConstant parts isAbsolute p2)
      else Inr (CV_int64 0, error ''Expected expression'' p))"
  by pat_completeness auto
termination
  by (relation "measure (case_sum
        (case_sum (case_sum fst (case_sum fst fst)) (case_sum (case_sum fst fst) (case_sum fst fst)))
        (case_sum (case_sum (case_sum fst fst) (case_sum fst fst))
                  (case_sum (case_sum fst fst) (case_sum fst fst))))") auto

section \<open>Types, declarators and definitions (parser/parser.cpp)\<close>

definition isTypeKeyword :: "TokenType \<Rightarrow> bool" where
  "isTypeKeyword ty =
     (ty \<in> {KwVoid, KwBoolean, KwChar, KwWchar, KwOctet, KwShort, KwLong, KwFloat, KwDouble,
             KwUnsigned, KwAny, KwObject, KwString, KwWstring, KwSequence})"

definition parseBasicType :: "Parser \<Rightarrow> BasicType \<times> Parser" where
  "parseBasicType p =
     (if check p KwVoid then (BT_Void, advance p)
      else if check p KwBoolean then (BT_Boolean, advance p)
      else if check p KwChar then (BT_Char, advance p)
      else if check p KwWchar then (BT_WChar, advance p)
      else if check p KwOctet then (BT_Octet, advance p)
      else if check p KwAny then (BT_Any, advance p)
      else if check p KwObject then (BT_Object, advance p)
      else if check p KwFloat then (BT_Float, advance p)
      else if check p KwDouble then (BT_Double, advance p)
      else
        (let (isUnsigned, p1) = match KwUnsigned p
         in if check p1 KwShort
            then (if isUnsigned then BT_UShort else BT_Short, advance p1)
            else if check p1 KwLong then
              (let p2 = advance p1
               in if check p2 KwLong
                  then (if isUnsigned then BT_ULongLong else BT_LongLong, advance p2)
                  else if check p2 KwDouble then (BT_LongDouble, advance p2)
                  else (if isUnsigned then BT_ULong else BT_Long, p2))
            else (BT_Void,
                  if isUnsigned
                  then error (''Expected '' @ quoted ''short'' @ '' or '' @ quoted ''long''
                              @ '' after '' @ quoted ''unsigned'') p1
                  else p1)))"

definition parseBaseTypeSpec :: "Parser \<Rightarrow> TypeNode option \<times> Parser" where
  "parseBaseTypeSpec p = (let (basicType, p1) = parseBasicType p in (Some (BasicTypeNode basicType), p1))"

definition parseScopedName :: "Parser \<Rightarrow> TypeNode option \<times> Parser" where
  "parseScopedName p =
     (let (isAbsolute, p1) = match DoubleColon p
      in if \<not> check p1 Identifier
         then (None, error ''Expected identifier in scoped name'' p1)
         else
           (let (parts, p2) =
                  identifierLoop DoubleColon
                    (error (''Expected identifier after '' @ quoted ''::'')) [] p1
            in (Some (ScopedNameNode parts isAbsolute), p2)))"

definition parseSimpleTypeSpec :: "Parser \<Rightarrow> TypeNode option \<times> Parser" where
  "parseSimpleTypeSpec p =
     (if isTypeKeyword (tokType (currentToken p)) then parseBaseTypeSpec p
      else if check p Identifier \<or> check p DoubleColon then parseScopedName p
      else (None, error ''Expected type specification'' p))"

text \<open>
  \<^verbatim>\<open>static_cast<size_t>\<close> of the folded bound or size, taken only from the two integer
  alternatives.
\<close>

definition toBound :: "ConstValue \<Rightarrow> nat option" where
  "toBound boundExpr =
     (case boundExpr of
        CV_int64 val \<Rightarrow> Some (unat val)
      | CV_uint64 uval \<Rightarrow> Some (unat uval)
      | _ \<Rightarrow> None)"

definition parseStringType ::
  "nat \<Rightarrow> bool \<Rightarrow> Parser \<Rightarrow> Abort + TypeNode option \<times> Parser" where
  "parseStringType n isWide p =
     (let p1 = advance p
      in if check p1 LeftAngle then
           (case parseConstExpr n (advance p1) of
              Inl e \<Rightarrow> Inl e
            | Inr (boundExpr, p2) \<Rightarrow>
                Inr (Some (StringTypeNode (toBound boundExpr) isWide),
                     expect RightAngle (''Expected '' @ quoted ''>'' @ '' at end of string bound'') p2))
         else Inr (Some (StringTypeNode None isWide), p1))"

function parseTypeSpec :: "nat \<Rightarrow> Parser \<Rightarrow> Abort + TypeNode option \<times> Parser"
  and parseSequenceType :: "nat \<Rightarrow> Parser \<Rightarrow> Abort + TypeNode option \<times> Parser"
where
  "parseTypeSpec 0 p = Inl OutOfFuel"
| "parseTypeSpec (Suc n) p =
     (if check p KwSequence then parseSequenceType n p
      else if check p KwString then parseStringType n False p
      else if check p KwWstring then parseStringType n True p
      else Inr (parseSimpleTypeSpec p))"
| "parseSequenceType 0 p = Inl OutOfFuel"
| "parseSequenceType (Suc n) p =
     (let p1 = expect KwSequence (''Expected '' @ quoted ''sequence'') p;
          p2 = expect LeftAngle (''Expected '' @ quoted ''<'' @ '' after '' @ quoted ''sequence'') p1
      in case parseTypeSpec n p2 of
           Inl e \<Rightarrow> Inl e
         | Inr (None, p3) \<Rightarrow> Inr (None, error ''Expected element type in sequence'' p3)
         | Inr (Some elemType, p3) \<Rightarrow>
             (let closing = expect RightAngle
                              (''Expected '' @ quoted ''>'' @ '' at end of sequence type'')
              in if check p3 Comma then
                   (case parseConstExpr n (advance p3) of
                      Inl e \<Rightarrow> Inl e
                    | Inr (boundExpr, p4) \<Rightarrow>
                        Inr (Some (SequenceTypeNode elemType (toBound boundExpr)), closing p4))
                 else Inr (Some (SequenceTypeNode elemType None), closing p3)))"
  by pat_completeness auto
termination
  by (relation "measure (case_sum fst fst)") auto

text \<open>\<^verbatim>\<open>Parser::parseDeclarator\<close> and \<^verbatim>\<open>Parser::parseDeclarators\<close>\<close>

definition toSize :: "ConstValue \<Rightarrow> nat" where
  "toSize sizeExpr =
     (case sizeExpr of CV_int64 val \<Rightarrow> unat val | CV_uint64 uval \<Rightarrow> unat uval | _ \<Rightarrow> 0)"

fun dimensionLoop :: "nat \<Rightarrow> nat list \<Rightarrow> Parser \<Rightarrow> Abort + nat list \<times> Parser" where
  "dimensionLoop 0 dims p = Inl OutOfFuel"
| "dimensionLoop (Suc n) dims p =
     (if check p LeftBracket then
        (case parseConstExpr n (advance p) of
           Inl e \<Rightarrow> Inl e
         | Inr (sizeExpr, p1) \<Rightarrow>
             dimensionLoop n (dims @ [toSize sizeExpr])
               (expect RightBracket (''Expected '' @ quoted '']'') p1))
      else Inr (dims, p))"

definition parseDeclarator :: "nat \<Rightarrow> Parser \<Rightarrow> Abort + TypedefDeclarator \<times> Parser" where
  "parseDeclarator n p =
     (if \<not> check p Identifier
      then Inr (\<lparr> declName = [], arrayDimensions = [] \<rparr>, error ''Expected identifier'' p)
      else
        (case dimensionLoop n [] (advance p) of
           Inl e \<Rightarrow> Inl e
         | Inr (dims, p1) \<Rightarrow>
             Inr (\<lparr> declName = tokText (currentToken p), arrayDimensions = dims \<rparr>, p1)))"

fun declaratorLoop ::
  "nat \<Rightarrow> TypedefDeclarator list \<Rightarrow> Parser \<Rightarrow> Abort + TypedefDeclarator list \<times> Parser" where
  "declaratorLoop 0 decls p = Inl OutOfFuel"
| "declaratorLoop (Suc n) decls p =
     (if check p Comma then
        (case parseDeclarator n (advance p) of
           Inl e \<Rightarrow> Inl e
         | Inr (decl, p1) \<Rightarrow> declaratorLoop n (decls @ [decl]) p1)
      else Inr (decls, p))"

definition parseDeclarators ::
  "nat \<Rightarrow> Parser \<Rightarrow> Abort + TypedefDeclarator list \<times> Parser" where
  "parseDeclarators n p =
     (case parseDeclarator n p of
        Inl e \<Rightarrow> Inl e
      | Inr (decl, p1) \<Rightarrow> declaratorLoop n [decl] p1)"

text \<open>\<^verbatim>\<open>Parser::parseStructMember\<close>\<close>

definition parseStructMember ::
  "nat \<Rightarrow> Parser \<Rightarrow> Abort + StructMemberNode option \<times> Parser" where
  "parseStructMember n p =
     (case parseTypeSpec n p of
        Inl e \<Rightarrow> Inl e
      | Inr (None, p1) \<Rightarrow> Inr (None, p1)
      | Inr (Some ty, p1) \<Rightarrow>
          (case parseDeclarators n p1 of
             Inl e \<Rightarrow> Inl e
           | Inr (decls, p2) \<Rightarrow>
               if decls = [] then Inr (None, error ''Expected member name'' p2)
               else
                 (let p3 = expectSemicolon p2;
                      decl = decls ! 0;
                      mty = (if arrayDimensions decl \<noteq> []
                             then ArrayTypeNode ty (arrayDimensions decl) else ty)
                  in Inr (Some \<lparr> memberType = mty, memberName = declName decl \<rparr>, p3))))"

text \<open>\<^verbatim>\<open>Parser::parseStruct\<close>; the loop over the members is \<open>memberLoop\<close>.\<close>

definition onTable :: "(SymbolTable \<Rightarrow> SymbolTable) \<Rightarrow> Parser \<Rightarrow> Parser" where
  "onTable f p = p\<lparr> symbolTable := f (symbolTable p) \<rparr>"

fun memberLoop ::
  "nat \<Rightarrow> StructMemberNode list \<Rightarrow> Parser \<Rightarrow> Abort + StructMemberNode list \<times> Parser" where
  "memberLoop 0 ms p = Inl OutOfFuel"
| "memberLoop (Suc n) ms p =
     (if \<not> check p RightBrace \<and> \<not> check p Eof then
        (case parseStructMember n p of
           Inl e \<Rightarrow> Inl e
         | Inr (Some member, p1) \<Rightarrow> memberLoop n (ms @ [member]) p1
         | Inr (None, p1) \<Rightarrow> memberLoop n ms (synchronize p1))
      else Inr (ms, p))"

definition parseStruct :: "nat \<Rightarrow> Parser \<Rightarrow> Abort + StructNode option \<times> Parser" where
  "parseStruct n p =
     (let p1 = expect KwStruct (''Expected '' @ quoted ''struct'') p
      in if \<not> check p1 Identifier then Inr (None, error ''Expected struct name'' p1)
         else
           (let nm = tokText (currentToken p1);
                p2 = advance p1
            in if check p2 Semicolon then
                 (let p3 = advance p2;
                      p4 = onTable (\<lambda>t. snd (addSymbol nm SK_Struct (Some (StructNodePtr nm)) t)) p3
                  in Inr (Some \<lparr> structName = nm,
                                  structFqn = buildFullyQualifiedName (symbolTable p4) nm,
                                  members = [] \<rparr>, p4))
               else
                 (let p3 = onTable (\<lambda>t. enterScope nm (snd (addSymbol nm SK_Struct None t))) p2;
                      fqn = getCurrentScopeName (symbolTable p3);
                      p4 = expect LeftBrace
                             (''Expected '' @ quoted ''{'' @ '' after struct name'') p3
                  in case memberLoop n [] p4 of
                       Inl e \<Rightarrow> Inl e
                     | Inr (ms, p5) \<Rightarrow>
                         (let p6 = expect RightBrace
                                     (''Expected '' @ quoted ''}'' @ '' at end of struct'') p5;
                              p7 = expectSemicolon p6;
                              p8 = onTable leaveScope p7
                          in Inr (Some \<lparr> structName = nm, structFqn = fqn, members = ms \<rparr>,
                                  p8)))))"

text \<open>\<^verbatim>\<open>Parser::parseEnum\<close>\<close>

definition parseEnum :: "Parser \<Rightarrow> EnumNode option \<times> Parser" where
  "parseEnum p =
     (let p1 = expect KwEnum (''Expected '' @ quoted ''enum'') p
      in if \<not> check p1 Identifier then (None, error ''Expected enum name'' p1)
         else
           (let nm = tokText (currentToken p1);
                p2 = advance p1;
                p3 = expect LeftBrace (''Expected '' @ quoted ''{'' @ '' after enum name'') p2;
                (vals, p4) = identifierLoop Comma (error ''Expected enumerator name'') [] p3;
                p5 = expect RightBrace (''Expected '' @ quoted ''}'' @ '' at end of enum'') p4;
                p6 = expectSemicolon p5;
                p7 = onTable (\<lambda>t. snd (addSymbol nm SK_Enum (Some (EnumNodePtr nm vals)) t)) p6;
                fqn = buildFullyQualifiedName (symbolTable p7) nm;
                p8 = onTable (\<lambda>t. fold (\<lambda>val t. snd (addSymbol val SK_EnumValue None t)) vals t) p7
            in (Some \<lparr> enumName = nm, enumFqn = fqn, enumerators = vals \<rparr>, p8)))"

text \<open>\<^verbatim>\<open>Parser::parseTypedef\<close>\<close>

definition parseTypedef :: "nat \<Rightarrow> Parser \<Rightarrow> Abort + TypedefNode option \<times> Parser" where
  "parseTypedef n p =
     (let p1 = expect KwTypedef (''Expected '' @ quoted ''typedef'') p
      in case parseTypeSpec n p1 of
           Inl e \<Rightarrow> Inl e
         | Inr (None, p2) \<Rightarrow> Inr (None, error ''Expected type specification'' p2)
         | Inr (Some ty, p2) \<Rightarrow>
             (case parseDeclarators n p2 of
                Inl e \<Rightarrow> Inl e
              | Inr (decls, p3) \<Rightarrow>
                  if decls = [] then Inr (None, error ''Expected declarator'' p3)
                  else
                    (let p4 = expectSemicolon p3;
                         p5 = onTable
                                (\<lambda>t. fold (\<lambda>decl t. snd (addSymbol (declName decl) SK_Typedef None t))
                                        decls t) p4;
                         nm = declName (decls ! 0)
                     in Inr (Some \<lparr> typedefName = nm,
                                     typedefFqn = buildFullyQualifiedName (symbolTable p5) nm,
                                     originalType = ty, declarators = decls \<rparr>, p5))))"

text \<open>\<^verbatim>\<open>Parser::parseConst\<close>\<close>

definition parseConst :: "nat \<Rightarrow> Parser \<Rightarrow> Abort + ConstNode option \<times> Parser" where
  "parseConst n p =
     (let p1 = expect KwConst (''Expected '' @ quoted ''const'') p
      in case parseTypeSpec n p1 of
           Inl e \<Rightarrow> Inl e
         | Inr (None, p2) \<Rightarrow> Inr (None, error ''Expected const type'' p2)
         | Inr (Some ty, p2) \<Rightarrow>
             if \<not> check p2 Identifier then Inr (None, error ''Expected const name'' p2)
             else
               (let nm = tokText (currentToken p2);
                    p3 = advance p2;
                    p4 = expect Equals (''Expected '' @ quoted ''='' @ '' after const name'') p3
                in case parseConstExpr n p4 of
                     Inl e \<Rightarrow> Inl e
                   | Inr (val, p5) \<Rightarrow>
                       (let p6 = expectSemicolon p5;
                            p7 = onTable
                                   (\<lambda>t. snd (addSymbol nm SK_Constant (Some (ConstNodePtr val)) t)) p6
                        in Inr (Some \<lparr> constName = nm,
                                        constFqn = buildFullyQualifiedName (symbolTable p7) nm,
                                        constType = ty, constValue = val \<rparr>, p7))))"

section \<open>Construction of a parser, and token sources for the examples\<close>

text \<open>
  \<^verbatim>\<open>Parser::Parser\<close>: the members take their default initialisers (\<^verbatim>\<open>Token()\<close> is an
  \<^verbatim>\<open>Unknown\<close> token without value or text at line 1, column 1 of no file) and the body
  calls \<^verbatim>\<open>advance()\<close> once.
\<close>

definition defaultToken :: Token where
  "defaultToken =
     \<lparr> tokType = Unknown, tokValue = TV_monostate, tokText = [],
       tokLocation = \<lparr> filename = [], line = 1, column = 1 \<rparr> \<rparr>"

definition newParser :: "Lexer \<Rightarrow> Parser" where
  "newParser lx =
     advance \<lparr> lexer = lx, currentToken = defaultToken, previousToken = defaultToken,
               errors = [], symbolTable = SymbolTable_new, hadError = False,
               panicMode = False \<rparr>"

text \<open>
  Tokens as \<^verbatim>\<open>scanToken\<close> builds them, all on line 1 of \<^verbatim>\<open>t.idl\<close>, given with their
  column: keywords and punctuation carry no value, an identifier carries its text, an
  integer literal its value.
\<close>

definition atColumn :: "nat \<Rightarrow> SourceLocation" where
  "atColumn c = \<lparr> filename = ''t.idl'', line = 1, column = c \<rparr>"

definition plainToken :: "TokenType \<Rightarrow> string \<Rightarrow> nat \<Rightarrow> Token \<times> LexerError list" where
  "plainToken ty str c =
     (\<lparr> tokType = ty, tokValue = TV_monostate, tokText = str, tokLocation = atColumn c \<rparr>, [])"

definition identifierToken :: "string \<Rightarrow> nat \<Rightarrow> Token \<times> LexerError list" where
  "identifierToken str c =
     (\<lparr> tokType = Identifier, tokValue = TV_string str, tokText = str,
        tokLocation = atColumn c \<rparr>, [])"

definition integerToken :: "64 word \<Rightarrow> string \<Rightarrow> nat \<Rightarrow> Token \<times> LexerError list" where
  "integerToken v str c =
     (\<lparr> tokType = IntegerLiteral, tokValue = TV_int64 v, tokText = str,
        tokLocation = atColumn c \<rparr>, [])"

definition floatToken :: "double \<Rightarrow> string \<Rightarrow> nat \<Rightarrow> Token \<times> LexerError list" where
  "floatToken v str c =
     (\<lparr> tokType = FloatLiteral, tokValue = TV_double v, tokText = str,
        tokLocation = atColumn c \<rparr>, [])"

definition lexerOf :: "(Token \<times> LexerError list) list \<Rightarrow> nat \<Rightarrow> Lexer" where
  "lexerOf ts c = \<lparr> scans = ts, lexErrors = [], endLocation = atColumn c \<rparr>"

text \<open>\<^verbatim>\<open>typedef long ;\<close>\<close>

definition typedefWithoutName :: Lexer where
  "typedefWithoutName =
     lexerOf [plainToken KwTypedef ''typedef'' 1, plainToken KwLong ''long'' 9,
              plainToken Semicolon '';'' 14] 15"

text \<open>\<^verbatim>\<open>enum Color { RED, GREEN }; const long C = GREEN;\<close>\<close>

definition enumThenConst :: Lexer where
  "enumThenConst =
     lexerOf [plainToken KwEnum ''enum'' 1, identifierToken ''Color'' 6,
              plainToken LeftBrace ''{'' 12, identifierToken ''RED'' 14,
              plainToken Comma '','' 17, identifierToken ''GREEN'' 19,
              plainToken RightBrace ''}'' 25, plainToken Semicolon '';'' 26,
              plainToken KwConst ''const'' 28, plainToken KwLong ''long'' 34,
              identifierToken ''C'' 39, plainToken Equals ''='' 41,
              identifierToken ''GREEN'' 43, plainToken Semicolon '';'' 48] 49"

text \<open>\<^verbatim>\<open>1.0 / 0.0\<close> and \<^verbatim>\<open>7 / 0\<close>\<close>

definition floatByZero :: Lexer where
  "floatByZero =
     lexerOf [floatToken (Finite False 1) ''1.0'' 1, plainToken Slash ''/'' 5,
              floatToken (Finite False 0) ''0.0'' 7] 10"

definition intByZero :: Lexer where
  "intByZero =
     lexerOf [integerToken 7 ''7'' 1, plainToken Slash ''/'' 3, integerToken 0 ''0'' 5] 6"

text \<open>\<^verbatim>\<open>1 + 2.5\<close>\<close>

definition intPlusFloat :: Lexer where
  "intPlusFloat =
     lexerOf [integerToken 1 ''1'' 1, plainToken Plus ''+'' 3,
              floatToken (Finite False 2.5) ''2.5'' 5] 8"


definition structMemberClass :: Lexer where
  "structMemberClass =
     lexerOf [plainToken KwStruct ''struct'' 1, identifierToken ''S'' 8,
              plainToken LeftBrace ''{'' 10, plainToken KwLong ''long'' 12,
              identifierToken ''class'' 17, plainToken Semicolon '';'' 22,
              plainToken RightBrace ''}'' 24, plainToken Semicolon '';'' 25] 26"





section \<open>Code generator (generator/cpp11\_generator)\<close>

record GeneratorConfig =
  outputDir :: string
  headerExtension :: string
  sourceExtension :: string
  namespacePrefix :: string
  generateImplementation :: bool
  useSmartPointers :: bool
  addIncludeGuards :: bool
  addDoxygen :: bool
  indentUnit :: string

text \<open>The default member initialisers of \<^verbatim>\<open>struct GeneratorConfig\<close>.\<close>

definition defaultConfig :: GeneratorConfig where
  "defaultConfig =
     \<lparr> outputDir = ''.'', headerExtension = ''.hpp'', sourceExtension = ''.cpp'',
       namespacePrefix = [], generateImplementation = True, useSmartPointers = True,
       addIncludeGuards = True, addDoxygen = True, indentUnit = ''    '' \<rparr>"

text \<open>
  The generator state the emitting functions below touch: the configuration, the header
  stream and the indentation level.
\<close>

record Generator =
  config :: GeneratorConfig
  header :: string
  indentLevel :: nat

definition newGenerator :: "GeneratorConfig \<Rightarrow> Generator" where
  "newGenerator cfg = \<lparr> config = cfg, header = [], indentLevel = 0 \<rparr>"

definition indent :: "Generator \<Rightarrow> Generator" where
  "indent g = g\<lparr> indentLevel := indentLevel g + 1 \<rparr>"

definition outdent :: "Generator \<Rightarrow> Generator" where
  "outdent g = (if indentLevel g > 0 then g\<lparr> indentLevel := indentLevel g - 1 \<rparr> else g)"

definition getIndent :: "Generator \<Rightarrow> string" where
  "getIndent g = concat (replicate (indentLevel g) (indentUnit (config g)))"

definition writeHeaderLine :: "string \<Rightarrow> Generator \<Rightarrow> Generator" where
  "writeHeaderLine str g =
     g\<lparr> header := header g @ (if str \<noteq> [] then getIndent g @ str else []) @ [CHR 0x0A] \<rparr>"

definition mapBasicType :: "BasicType \<Rightarrow> string" where
  "mapBasicType ty =
     (case ty of
        BT_Void \<Rightarrow> ''void'' | BT_Boolean \<Rightarrow> ''bool'' | BT_Char \<Rightarrow> ''char''
      | BT_WChar \<Rightarrow> ''wchar_t'' | BT_Octet \<Rightarrow> ''uint8_t'' | BT_Short \<Rightarrow> ''int16_t''
      | BT_UShort \<Rightarrow> ''uint16_t'' | BT_Long \<Rightarrow> ''int32_t'' | BT_ULong \<Rightarrow> ''uint32_t''
      | BT_LongLong \<Rightarrow> ''int64_t'' | BT_ULongLong \<Rightarrow> ''uint64_t'' | BT_Float \<Rightarrow> ''float''
      | BT_Double \<Rightarrow> ''double'' | BT_LongDouble \<Rightarrow> ''long double'' | BT_Any \<Rightarrow> ''std::any''
      | BT_Object \<Rightarrow> ''Object'')"

text \<open>
  The loop \<^verbatim>\<open>for (auto it = dims.rbegin(); it != dims.rend(); ++it) elemType =
  "std::array<" + elemType + ", " + std::to_string(*it) + ">";\<close> of
  \<^verbatim>\<open>visit(ArrayTypeNode&)\<close> and of \<^verbatim>\<open>generateTypedef\<close>.
\<close>

definition wrapArray :: "string \<Rightarrow> nat \<Rightarrow> string" where
  "wrapArray elemType d = ''std::array<'' @ elemType @ '', '' @ to_string d @ ''>''"

definition wrapArrays :: "string \<Rightarrow> nat list \<Rightarrow> string" where
  "wrapArrays elemType dims = foldl wrapArray elemType (rev dims)"

text \<open>The loop of \<^verbatim>\<open>visit(ScopedNameNode&)\<close>: the parts with \<^verbatim>\<open>"::"\<close> between them.\<close>

fun scopedParts :: "string \<Rightarrow> nat \<Rightarrow> string list \<Rightarrow> string" where
  "scopedParts result i [] = result"
| "scopedParts result i (part # rest) =
     scopedParts ((if i > 0 then result @ ''::'' else result) @ part) (i + 1) rest"

text \<open>
  \<^verbatim>\<open>mapType\<close> clears \<^verbatim>\<open>currentTypeName_\<close>, lets the node accept the generator and returns
  what the \<^verbatim>\<open>visit\<close> overload of the node's class stored there.
\<close>

fun mapType :: "TypeNode \<Rightarrow> string" where
  "mapType (BasicTypeNode ty) = mapBasicType ty"
| "mapType (SequenceTypeNode elementType bound) = ''std::vector<'' @ mapType elementType @ ''>''"
| "mapType (StringTypeNode bound isWide) = (if isWide then ''std::wstring'' else ''std::string'')"
| "mapType (ScopedNameNode parts isAbsolute) =
     scopedParts (if isAbsolute then ''::'' else []) 0 parts"
| "mapType (ArrayTypeNode elementType dimensions) = wrapArrays (mapType elementType) dimensions"

text \<open>\<^verbatim>\<open>Cpp11Generator::generateTypedef\<close>\<close>

definition typedefLine :: "string \<Rightarrow> TypedefDeclarator \<Rightarrow> string" where
  "typedefLine baseType decl =
     (let finalType = (if arrayDimensions decl \<noteq> []
                       then wrapArrays baseType (arrayDimensions decl) else baseType)
      in ''using '' @ declName decl @ '' = '' @ finalType @ '';'')"

definition generateTypedef :: "TypedefNode \<Rightarrow> Generator \<Rightarrow> Generator" where
  "generateTypedef nd g =
     (let baseType = mapType (originalType nd);
          g1 = fold (\<lambda>decl. writeHeaderLine (typedefLine baseType decl)) (declarators nd) g
      in writeHeaderLine [] g1)"

text \<open>\<^verbatim>\<open>Cpp11Generator::generateStruct\<close>\<close>

fun comparison :: "string \<Rightarrow> nat \<Rightarrow> StructMemberNode list \<Rightarrow> string" where
  "comparison acc i [] = acc"
| "comparison acc i (m # ms) =
     comparison ((if i > 0 then acc @ '' && '' else acc)
                 @ memberName m @ '' == other.'' @ memberName m) (i + 1) ms"

definition generateStruct :: "StructNode \<Rightarrow> Generator \<Rightarrow> Generator" where
  "generateStruct nd g =
     (let g1 = (if addDoxygen (config g)
                then writeHeaderLine '' */''
                       (writeHeaderLine ('' * @brief IDL struct '' @ structName nd)
                          (writeHeaderLine ''/**'' g))
                else g);
          g2 = indent (writeHeaderLine (''struct '' @ structName nd @ '' {'') g1);
          g3 = fold (\<lambda>member. writeHeaderLine
                       (mapType (memberType member) @ '' '' @ memberName member @ '';''))
                    (members nd) g2;
          g4 = indent
                 (writeHeaderLine
                    (''bool operator==(const '' @ structName nd @ ''& other) const {'')
                    (writeHeaderLine [] g3));
          g5 = (if members nd = []
                then writeHeaderLine ''return true;'' (writeHeaderLine ''(void)other;'' g4)
                else writeHeaderLine (''return '' @ comparison [] 0 (members nd) @ '';'') g4);
          g6 = writeHeaderLine ''}'' (outdent g5);
          g7 = indent
                 (writeHeaderLine
                    (''bool operator!=(const '' @ structName nd @ ''& other) const {'')
                    (writeHeaderLine [] g6));
          g8 = writeHeaderLine ''}'' (outdent (writeHeaderLine ''return !(*this == other);'' g7));
          g9 = writeHeaderLine ''};'' (outdent g8)
      in writeHeaderLine [] g9)"

text \<open>\<^verbatim>\<open>Cpp11Generator::sanitizeIdentifier\<close>, with its table \<^verbatim>\<open>reserved\<close>.\<close>

definition reserved :: "(string \<times> string) list" where
  "reserved =
     [(''class'', ''class_''), (''struct'', ''struct_''), (''union'', ''union_''),
      (''enum'', ''enum_''), (''template'', ''template_''), (''typename'', ''typename_''),
      (''virtual'', ''virtual_''), (''public'', ''public_''), (''private'', ''private_''),
      (''protected'', ''protected_''), (''friend'', ''friend_''),
      (''namespace'', ''namespace_''), (''using'', ''using_''), (''try'', ''try_''),
      (''catch'', ''catch_''), (''throw'', ''throw_''), (''new'', ''new_''),
      (''delete'', ''delete_''), (''this'', ''this_''), (''operator'', ''operator_''),
      (''sizeof'', ''sizeof_''), (''alignof'', ''alignof_''), (''decltype'', ''decltype_''),
      (''nullptr'', ''nullptr_''), (''constexpr'', ''constexpr_''),
      (''static_cast'', ''static_cast_''), (''dynamic_cast'', ''dynamic_cast_''),
      (''const_cast'', ''const_cast_''), (''reinterpret_cast'', ''reinterpret_cast_'')]"

definition sanitizeIdentifier :: "string \<Rightarrow> string" where
  "sanitizeIdentifier nm = (case map_of reserved nm of Some r \<Rightarrow> r | None \<Rightarrow> nm)"

section \<open>Notions the properties are stated with\<close>

text \<open>
  Two operands that \<^verbatim>\<open>parseAddExpr\<close> and \<^verbatim>\<open>parseMulExpr\<close> combine: both hold an
  \<^verbatim>\<open>int64_t\<close>, or both hold a \<^verbatim>\<open>double\<close>.
\<close>

definition sameArithmeticAlternative :: "ConstValue \<Rightarrow> ConstValue \<Rightarrow> bool" where
  "sameArithmeticAlternative l r =
     (case l of
        CV_int64 _ \<Rightarrow> (case r of CV_int64 _ \<Rightarrow> True | _ \<Rightarrow> False)
      | CV_double _ \<Rightarrow> (case r of CV_double _ \<Rightarrow> True | _ \<Rightarrow> False)
      | _ \<Rightarrow> False)"

text \<open>The ordinal of an enumerator within its enum: the index of its first occurrence.\<close>

definition position :: "string list \<Rightarrow> string \<Rightarrow> nat option" where
  "position vals nm = List.find (\<lambda>i. vals ! i = nm) [0..<length vals]"



text \<open>
  The nesting of \<^verbatim>\<open>std::array\<close> the specification asks for: the first dimension
  outermost, the last innermost, around the mapped element type.
\<close>

fun nestedArray :: "string \<Rightarrow> nat list \<Rightarrow> string" where
  "nestedArray elemType [] = elemType"
| "nestedArray elemType (d # dims) =
     ''std::array<'' @ nestedArray elemType dims @ '', '' @ to_string d @ ''>''"

text \<open>The text of a header, given by its lines.\<close>

definition joinLines :: "string list \<Rightarrow> string" where
  "joinLines ls = concat (map (\<lambda>l. l @ [CHR 0x0A]) ls)"





text \<open>
  The calls on the table while \<^verbatim>\<open>module M { const long x = 7; };\<close> is parsed, and the
  symbol they record for \<^verbatim>\<open>x\<close>.
\<close>

definition moduleWithConstant :: "TableOp list" where
  "moduleWithConstant =
     [AddSymbol ''M'' SK_Module None, EnterScope ''M'',
      AddSymbol ''x'' SK_Constant (Some (ConstNodePtr (CV_int64 7))), LeaveScope]"

definition constantInModule :: Symbol where
  "constantInModule =
     \<lparr> name = ''x'', fullyQualifiedName = ''M::x'', kind = SK_Constant,
       node = Some (ConstNodePtr (CV_int64 7)), scope = ''M'' \<rparr>"

section \<open>Properties of the symbol table\<close>

lemma deref_append: "deref g (p @ q) = deref (deref g p) q"
  by (induction g p rule: deref.induct) auto

lemma validPtr_append: "validPtr g (p @ q) = (validPtr g p \<and> validPtr (deref g p) q)"
  by (induction g p rule: validPtr.induct) auto

lemma deref_assign: "validPtr g p \<Longrightarrow> deref (assign g p s) p = s"
  by (induction g p arbitrary: s rule: validPtr.induct) auto

lemma assign_deref: "assign g p (deref g p) = g"
  by (induction g p rule: deref.induct) auto

lemma validPtr_assign:
  "validPtr g p \<Longrightarrow> validPtr (assign g p s) (p @ q) = validPtr s q"
  by (induction g p arbitrary: s rule: validPtr.induct) auto

lemma allScopes_sub:
  "s \<in> set (allScopes g) \<Longrightarrow> \<exists>p. validPtr g p \<and> deref g p = s"
proof (induction g rule: allScopes.induct)
  case (1 nm fqn syms cs)
  let ?g = "Scope nm fqn syms cs"
  show ?case
  proof (cases "s = ?g")
    case True
    then have "validPtr ?g [] \<and> deref ?g [] = s" by simp
    then show ?thesis by blast
  next
    case False
    with "1.prems" obtain c where c: "c \<in> set cs" "s \<in> set (allScopes c)"
      by auto
    from "1.IH"[OF c] obtain p where p: "validPtr c p" "deref c p = s" by blast
    from c(1) obtain i where i: "i < length cs" "cs ! i = c"
      by (auto simp: in_set_conv_nth)
    with p have "validPtr ?g (i # p) \<and> deref ?g (i # p) = s" by simp
    then show ?thesis by blast
  qed
qed

lemma allScopes_self: "g \<in> set (allScopes g)"
  by (cases g) simp

lemma allScopes_child:
  "i < length (children g) \<Longrightarrow> s \<in> set (allScopes (children g ! i)) \<Longrightarrow> s \<in> set (allScopes g)"
  by (cases g) auto

lemma allScopes_sup:
  "validPtr g p \<Longrightarrow> deref g p \<in> set (allScopes g)"
proof (induction g p rule: validPtr.induct)
  case (1 g)
  then show ?case by (simp add: allScopes_self del: allScopes.simps)
next
  case (2 g i p)
  then show ?case by (auto intro: allScopes_child simp del: allScopes.simps)
qed

lemma allScopes_iff: "s \<in> set (allScopes g) \<longleftrightarrow> (\<exists>p. validPtr g p \<and> deref g p = s)"
  using allScopes_sub allScopes_sup by blast

lemma wfScope_unfold:
  "wfScope s =
     ((\<forall>k x. symbols s k = Some x \<longrightarrow>
          name x = k \<and> fullyQualifiedName x = qualify (scopeFqn s) k \<and> (k = [] \<or> plainName k))
      \<and> distinct (map scopeName (children s))
      \<and> (\<forall>c \<in> set (children s). plainName (scopeName c)
            \<and> scopeFqn c = qualify (scopeFqn s) (scopeName c) \<and> wfScope c))"
  by (cases s) simp

lemma wfScope_child: "wfScope g \<Longrightarrow> i < length (children g) \<Longrightarrow> wfScope (children g ! i)"
  by (subst (asm) wfScope_unfold) simp

lemma wfScope_deref: "wfScope g \<Longrightarrow> validPtr g p \<Longrightarrow> wfScope (deref g p)"
  by (induction g p rule: validPtr.induct) (auto simp: wfScope_child simp del: wfScope.simps)

lemma assign_name:
  "validPtr g p \<Longrightarrow> scopeName s = scopeName (deref g p) \<Longrightarrow> scopeName (assign g p s) = scopeName g"
  by (cases p) auto

lemma assign_fqn:
  "validPtr g p \<Longrightarrow> scopeFqn s = scopeFqn (deref g p) \<Longrightarrow> scopeFqn (assign g p s) = scopeFqn g"
  by (cases p) auto

lemma wfScope_assign:
  "wfScope g \<Longrightarrow> validPtr g p \<Longrightarrow> wfScope s \<Longrightarrow> scopeName s = scopeName (deref g p)
   \<Longrightarrow> scopeFqn s = scopeFqn (deref g p) \<Longrightarrow> wfScope (assign g p s)"
proof (induction g p arbitrary: s rule: validPtr.induct)
  case (1 g)
  then show ?case by simp
next
  case (2 g i p)
  let ?c = "children g ! i"
  let ?c' = "assign ?c p s"
  from 2 have i: "i < length (children g)" and vp: "validPtr ?c p" by auto
  have wc: "wfScope ?c" using "2.prems"(1) i by (rule wfScope_child)
  have wc': "wfScope ?c'" using "2.IH" wc vp "2.prems" by simp
  have nm: "scopeName ?c' = scopeName ?c" using assign_name vp "2.prems" by simp
  have fq: "scopeFqn ?c' = scopeFqn ?c" using assign_fqn vp "2.prems" by simp
  have names: "map scopeName ((children g)[i := ?c']) = map scopeName (children g)"
    using nm i by (simp add: map_update list_update_same_conv)
  have g: "wfScope g" by fact
  have "\<forall>c \<in> set ((children g)[i := ?c']). plainName (scopeName c)
            \<and> scopeFqn c = qualify (scopeFqn g) (scopeName c) \<and> wfScope c"
  proof
    fix c assume "c \<in> set ((children g)[i := ?c'])"
    then have "c = ?c' \<or> c \<in> set (children g)"
      using set_update_subset_insert[of "children g" i ?c'] by auto
    then show "plainName (scopeName c) \<and> scopeFqn c = qualify (scopeFqn g) (scopeName c) \<and> wfScope c"
    proof
      assume "c = ?c'"
      moreover have "?c \<in> set (children g)" using i by simp
      ultimately show ?thesis using wc' nm fq g by (subst (asm) wfScope_unfold) auto
    next
      assume "c \<in> set (children g)"
      then show ?thesis using g by (subst (asm) wfScope_unfold) auto
    qed
  qed
  then show ?case using g names
    by (subst (asm) wfScope_unfold) (simp del: wfScope.simps add: wfScope_unfold[of "Scope _ _ _ _"])
qed

lemma firstNamed_Some:
  "firstNamed cs n = Some i \<Longrightarrow> i < length cs \<and> scopeName (cs ! i) = n"
  by (induction cs arbitrary: i) (auto split: if_splits)

lemma firstNamed_None: "firstNamed cs n = None \<Longrightarrow> n \<notin> set (map scopeName cs)"
  by (induction cs) (auto split: if_splits)

lemma firstNamed_distinct:
  "distinct (map scopeName cs) \<Longrightarrow> i < length cs \<Longrightarrow> firstNamed cs (scopeName (cs ! i)) = Some i"
proof (induction cs arbitrary: i)
  case Nil
  then show ?case by simp
next
  case (Cons c cs)
  show ?case
  proof (cases i)
    case 0
    then show ?thesis by simp
  next
    case (Suc j)
    with Cons.prems have j: "j < length cs" by simp
    then have "scopeName (cs ! j) \<in> set (map scopeName cs)" by simp
    with Cons.prems have "scopeName c \<noteq> scopeName (cs ! j)" by auto
    with Cons.IH[OF _ j] Cons.prems Suc show ?thesis by simp
  qed
qed

lemma wfScope_new: "wfScope (Scope_new nm parent)"
  by (simp add: Scope_new_def)

lemma Scope_new_sel:
  "scopeName (Scope_new nm parent) = nm"
  "scopeFqn (Scope_new nm (Some s)) = qualify (scopeFqn s) nm"
  by (simp_all add: Scope_new_def qualify_def)

lemma wfTable_new: "wfTable SymbolTable_new"
  by (simp add: wfTable_def SymbolTable_new_def Scope_new_def)

lemma wfTable_leaveScope: "wfTable st \<Longrightarrow> wfTable (leaveScope st)"
proof -
  assume w: "wfTable st"
  show ?thesis
  proof (cases "currentScope st = []")
    case True
    then show ?thesis using w by (simp add: leaveScope_def)
  next
    case False
    then have "currentScope st = butlast (currentScope st) @ [last (currentScope st)]" by simp
    then have "validPtr (globalScope st) (butlast (currentScope st))"
      using w validPtr_append[of "globalScope st" "butlast (currentScope st)" "[last (currentScope st)]"]
      by (simp add: wfTable_def)
    then show ?thesis using w False by (simp add: leaveScope_def wfTable_def)
  qed
qed

lemma wfTable_enterScope:
  assumes w: "wfTable st" and nm: "plainName nm"
  shows "wfTable (enterScope nm st)"
proof -
  let ?g = "globalScope st" and ?p = "currentScope st"
  let ?cur = "deref ?g ?p"
  from w have g0: "scopeFqn ?g = []" and wg: "wfScope ?g" and vp: "validPtr ?g ?p"
    by (simp_all add: wfTable_def)
  have wcur: "wfScope ?cur" using wg vp by (rule wfScope_deref)
  show ?thesis
  proof (cases "firstNamed (children ?cur) nm")
    case (Some i)
    then have "i < length (children ?cur)" using firstNamed_Some by blast
    then have "validPtr ?g (?p @ [i])" using vp by (simp add: validPtr_append)
    then show ?thesis using Some g0 wg
      by (simp add: enterScope_def Scope_getChildScope_def current_def wfTable_def)
  next
    case None
    let ?s' = "Scope (scopeName ?cur) (scopeFqn ?cur) (symbols ?cur)
                  (children ?cur @ [Scope_new nm (Some ?cur)])"
    have fresh: "nm \<notin> set (map scopeName (children ?cur))" using None by (rule firstNamed_None)
    have ws': "wfScope ?s'"
      using wcur fresh nm
      by (subst (asm) wfScope_unfold) (auto simp: Scope_new_sel wfScope_new)
    have wa: "wfScope (assign ?g ?p ?s')" using wg vp ws' by (rule wfScope_assign) simp_all
    have fa: "scopeFqn (assign ?g ?p ?s') = []" using assign_fqn[OF vp, of ?s'] g0 by simp
    have va: "validPtr (assign ?g ?p ?s') (?p @ [length (children ?cur)])"
      using validPtr_assign[OF vp] by simp
    show ?thesis using None wa fa va
      by (simp add: enterScope_def Scope_getChildScope_def current_def wfTable_def
                    Scope_createChildScope_def)
  qed
qed

lemma wfTable_addSymbol:
  assumes w: "wfTable st" and nm: "nm = [] \<or> plainName nm"
  shows "wfTable (snd (addSymbol nm k nd st))"
proof -
  let ?g = "globalScope st" and ?p = "currentScope st"
  let ?cur = "deref ?g ?p"
  from w have g0: "scopeFqn ?g = []" and wg: "wfScope ?g" and vp: "validPtr ?g ?p"
    by (simp_all add: wfTable_def)
  have wcur: "wfScope ?cur" using wg vp by (rule wfScope_deref)
  show ?thesis
  proof (cases "symbols ?cur nm")
    case (Some a)
    then show ?thesis using w
      by (simp add: addSymbol_def Scope_addSymbol_def current_def assign_deref wfTable_def)
  next
    case None
    let ?x = "\<lparr> name = nm, fullyQualifiedName = buildFullyQualifiedName st nm,
                kind = k, node = nd, scope = scopeFqn ?cur \<rparr>"
    let ?s' = "Scope (scopeName ?cur) (scopeFqn ?cur) ((symbols ?cur)(nm \<mapsto> ?x)) (children ?cur)"
    have ws': "wfScope ?s'"
      using wcur nm
      by (subst (asm) wfScope_unfold)
         (auto simp: buildFullyQualifiedName_def current_def qualify_def)
    have wa: "wfScope (assign ?g ?p ?s')" using wg vp ws' by (rule wfScope_assign) simp_all
    have fa: "scopeFqn (assign ?g ?p ?s') = []" using assign_fqn[OF vp, of ?s'] g0 by simp
    have va: "validPtr (assign ?g ?p ?s') ?p"
      using validPtr_assign[OF vp, of ?s' "[]"] by simp
    show ?thesis using None wa fa va
      by (simp add: addSymbol_def Scope_addSymbol_def current_def wfTable_def)
  qed
qed

lemma wfTable_applyOp: "wfTable st \<Longrightarrow> parserOp op \<Longrightarrow> wfTable (applyOp op st)"
  by (cases op) (simp_all add: wfTable_enterScope wfTable_leaveScope wfTable_addSymbol)

lemma wfTable_run: "wfTable st \<Longrightarrow> list_all parserOp ops \<Longrightarrow> wfTable (run ops st)"
  unfolding run_def by (induction ops arbitrary: st) (simp_all add: wfTable_applyOp)

lemma splitParts_plain:
  "CHR '':'' \<notin> set n \<Longrightarrow> splitParts (n @ rest) cur parts = splitParts rest (cur @ n) parts"
proof (induction n arbitrary: cur)
  case Nil
  then show ?case by simp
next
  case (Cons c n)
  then have c: "c \<noteq> CHR '':''" by auto
  show ?case
  proof (cases "n @ rest")
    case Nil
    then show ?thesis by simp
  next
    case (Cons d r)
    have "splitParts ((c # n) @ rest) cur parts = splitParts (c # d # r) cur parts"
      using Cons by simp
    also have "\<dots> = splitParts (d # r) (cur @ [c]) parts" using c by simp
    also have "\<dots> = splitParts (n @ rest) (cur @ [c]) parts" using Cons by simp
    also have "\<dots> = splitParts rest ((cur @ [c]) @ n) parts"
      using Cons.IH Cons.prems by simp
    finally show ?thesis by simp
  qed
qed

lemma splitParts_joinWith:
  "list_all plainName ns \<Longrightarrow> splitParts (joinWith ns) [] parts = parts @ ns"
proof (induction ns arbitrary: parts rule: joinWith.induct)
  case 1
  then show ?case by simp
next
  case (2 n)
  then have "CHR '':'' \<notin> set n" "n \<noteq> []" by (simp_all add: plainName_def)
  then show ?case using splitParts_plain[of n "[]" "[]" parts] by simp
next
  case (3 n m ns)
  then have n: "CHR '':'' \<notin> set n" "n \<noteq> []" by (simp_all add: plainName_def)
  have "splitParts (joinWith (n # m # ns)) [] parts
        = splitParts (''::'' @ joinWith (m # ns)) n parts"
    using splitParts_plain[OF n(1), of "''::'' @ joinWith (m # ns)" "[]" parts] by simp
  also have "\<dots> = splitParts (joinWith (m # ns)) [] (parts @ [n])" using n(2) by simp
  also have "\<dots> = (parts @ [n]) @ (m # ns)" using 3 by simp
  finally show ?case by simp
qed

lemma joinWith_nonempty: "list_all plainName ns \<Longrightarrow> ns \<noteq> [] \<Longrightarrow> joinWith ns \<noteq> []"
  by (induction ns rule: joinWith.induct) (auto simp: plainName_def)

lemma joinWith_hd:
  "list_all plainName ns \<Longrightarrow> ns \<noteq> [] \<Longrightarrow> hd (joinWith ns) \<noteq> CHR '':''"
  by (induction ns rule: joinWith.induct) (auto simp: plainName_def dest: hd_in_set)

lemma startsWithColons_joinWith:
  assumes "list_all plainName ns"
  shows "\<not> startsWithColons (joinWith ns)"
proof (cases "ns = []")
  case True
  then show ?thesis by (simp add: startsWithColons_def)
next
  case False
  then have "joinWith ns \<noteq> []" "hd (joinWith ns) \<noteq> CHR '':''"
    using assms joinWith_nonempty joinWith_hd by blast+
  then show ?thesis by (cases "joinWith ns") (auto simp: startsWithColons_def)
qed

lemma qualify_joinWith:
  "list_all plainName ns \<Longrightarrow> plainName n \<Longrightarrow> qualify (joinWith ns) n = joinWith (ns @ [n])"
proof (induction ns rule: joinWith.induct)
  case 1
  then show ?case by (simp add: qualify_def)
next
  case (2 m)
  then show ?case by (simp add: qualify_def plainName_def)
next
  case (3 a b ns)
  then have "qualify (joinWith (b # ns)) n = joinWith ((b # ns) @ [n])" by simp
  moreover have "joinWith (b # ns) \<noteq> []" using 3 joinWith_nonempty[of "b # ns"] by simp
  ultimately show ?case by (simp add: qualify_def)
qed

lemma plain_pathNames:
  "wfScope g \<Longrightarrow> validPtr g p \<Longrightarrow> list_all plainName (pathNames g p)"
proof (induction g p rule: validPtr.induct)
  case (1 g)
  then show ?case by simp
next
  case (2 g i p)
  then have "children g ! i \<in> set (children g)" by simp
  then have "plainName (scopeName (children g ! i))" "wfScope (children g ! i)"
    using "2.prems"(1) by (subst (asm) wfScope_unfold, simp)+
  then show ?case using 2 by simp
qed

lemma pathNames_append:
  "pathNames g (p @ q) = pathNames g p @ pathNames (deref g p) q"
  by (induction g p rule: deref.induct) auto

lemma scopeFqn_deref:
  "wfScope g \<Longrightarrow> scopeFqn g = [] \<Longrightarrow> validPtr g p \<Longrightarrow> scopeFqn (deref g p) = joinWith (pathNames g p)"
proof (induction p rule: rev_induct)
  case Nil
  then show ?case by simp
next
  case (snoc i p)
  let ?s = "deref g p"
  from snoc.prems have vp: "validPtr g p" and i: "i < length (children ?s)"
    by (simp_all add: validPtr_append)
  have ws: "wfScope ?s" using snoc.prems(1) vp by (rule wfScope_deref)
  have c: "children ?s ! i \<in> set (children ?s)" using i by simp
  have "scopeFqn (children ?s ! i) = qualify (scopeFqn ?s) (scopeName (children ?s ! i))"
    and pl: "plainName (scopeName (children ?s ! i))"
    using ws c by (subst (asm) wfScope_unfold, simp)+
  then have "scopeFqn (deref g (p @ [i])) = qualify (joinWith (pathNames g p)) (scopeName (children ?s ! i))"
    using snoc.IH snoc.prems vp by (simp add: deref_append)
  also have "\<dots> = joinWith (pathNames g p @ [scopeName (children ?s ! i)])"
    using plain_pathNames[OF snoc.prems(1) vp] pl by (rule qualify_joinWith)
  finally show ?case by (simp add: pathNames_append)
qed

lemma descend_pathNames:
  "wfScope g \<Longrightarrow> validPtr g q \<Longrightarrow> validPtr (deref g q) p
   \<Longrightarrow> descend g q (pathNames (deref g q) p) = Some (q @ p)"
proof (induction p arbitrary: q)
  case Nil
  then show ?case by simp
next
  case (Cons i p)
  let ?s = "deref g q"
  from Cons.prems have i: "i < length (children ?s)" and vp: "validPtr (children ?s ! i) p" by auto
  have ws: "wfScope ?s" using Cons.prems(1,2) by (rule wfScope_deref)
  then have "distinct (map scopeName (children ?s))" by (subst (asm) wfScope_unfold) simp
  then have f: "firstNamed (children ?s) (scopeName (children ?s ! i)) = Some i"
    using i by (rule firstNamed_distinct)
  have vq: "validPtr g (q @ [i])" using Cons.prems(2) i by (simp add: validPtr_append)
  have d: "deref g (q @ [i]) = children ?s ! i" by (simp add: deref_append)
  have "descend g (q @ [i]) (pathNames (deref g (q @ [i])) p) = Some ((q @ [i]) @ p)"
    using Cons.IH[OF Cons.prems(1) vq] vp d by simp
  then show ?case using f d by (simp add: Scope_getChildScope_def)
qed

lemma recorded_ptr:
  assumes "wfTable st" "recorded st x"
  obtains p where "validPtr (globalScope st) p"
    and "symbols (deref (globalScope st) p) (name x) = Some x"
    and "fullyQualifiedName x = qualify (scopeFqn (deref (globalScope st) p)) (name x)"
    and "name x = [] \<or> plainName (name x)"
proof -
  from assms(2) obtain s k where s: "s \<in> set (allScopes (globalScope st))" and k: "symbols s k = Some x"
    by (auto simp: recorded_def ran_def)
  from s obtain p where p: "validPtr (globalScope st) p" "deref (globalScope st) p = s"
    using allScopes_iff by blast
  have "wfScope s" using assms(1) p wfScope_deref by (auto simp: wfTable_def)
  then have "name x = k \<and> fullyQualifiedName x = qualify (scopeFqn s) k \<and> (k = [] \<or> plainName k)"
    using k by (subst (asm) wfScope_unfold) blast
  then show ?thesis using that p k by auto
qed

lemma lookupQualified_roundtrip:
  assumes w: "wfTable st" and cur: "currentScope st = []"
    and r: "recorded st x" and nm: "name x \<noteq> []"
  shows "lookupQualified st (fullyQualifiedName x) = Some x"
proof -
  let ?g = "globalScope st"
  from w have g0: "scopeFqn ?g = []" and wg: "wfScope ?g" by (simp_all add: wfTable_def)
  from w r obtain p where vp: "validPtr ?g p"
    and sx: "symbols (deref ?g p) (name x) = Some x"
    and fq: "fullyQualifiedName x = qualify (scopeFqn (deref ?g p)) (name x)"
    and pl0: "name x = [] \<or> plainName (name x)"
    by (rule recorded_ptr)
  from pl0 nm have pl: "plainName (name x)" by simp
  let ?ns = "pathNames ?g p"
  have pns: "list_all plainName ?ns" using wg vp by (rule plain_pathNames)
  have "fullyQualifiedName x = joinWith (?ns @ [name x])"
    using fq scopeFqn_deref[OF wg g0 vp] qualify_joinWith[OF pns pl] by simp
  moreover have all: "list_all plainName (?ns @ [name x])" using pns pl by simp
  ultimately have parts: "parseQualifiedName (fullyQualifiedName x) = ?ns @ [name x]"
    and rel: "\<not> startsWithColons (fullyQualifiedName x)"
    using splitParts_joinWith[of "?ns @ [name x]" "[]"] startsWithColons_joinWith[of "?ns @ [name x]"]
    by (simp_all add: parseQualifiedName_def)
  have "lookupScoped st (?ns @ [name x]) False = Some x"
  proof (cases p)
    case Nil
    then have "Scope_lookup ?g [] (name x) = Some x"
      using sx by (subst Scope_lookup.simps) (simp add: Scope_lookupLocal_def)
    then show ?thesis using Nil cur by (simp add: lookupScoped_def)
  next
    case (Cons i q)
    with vp have i: "i < length (children ?g)" and vq: "validPtr (children ?g ! i) q" by auto
    have "distinct (map scopeName (children ?g))" using wg by (subst (asm) wfScope_unfold) simp
    then have f: "firstNamed (children ?g) (scopeName (children ?g ! i)) = Some i"
      using i by (rule firstNamed_distinct)
    have wu: "walkUp ?g [] (?ns @ [name x]) = Break [i]"
      using f Cons by (subst walkUp.simps) (simp add: Scope_getChildScope_def)
    have vi: "validPtr ?g [i]" using i by simp
    have "descend ?g [i] (pathNames (deref ?g [i]) q) = Some ([i] @ q)"
      using wg vi by (rule descend_pathNames) (use vq in simp)
    then have "navigate ?g [i] 1 (?ns @ [name x]) = Some x"
      using Cons sx by (simp add: navigate_def Scope_lookupLocal_def)
    then show ?thesis using wu cur Cons by (simp add: lookupScoped_def)
  qed
  then show ?thesis using parts rel by (simp add: lookupQualified_def)
qed

lemma scopeFqn_nonempty:
  assumes "wfScope g" "scopeFqn g = []" "validPtr g p"
  shows "scopeFqn (deref g p) = [] \<longleftrightarrow> p = []"
proof (cases "p = []")
  case True
  then show ?thesis using assms by simp
next
  case False
  then have "pathNames g p \<noteq> []" by (cases p) auto
  then have "joinWith (pathNames g p) \<noteq> []"
    using plain_pathNames[OF assms(1,3)] joinWith_nonempty by blast
  then show ?thesis using False scopeFqn_deref[OF assms] by simp
qed

lemma child_fqn:
  assumes w: "wfTable st" and v: "validPtr (globalScope st) (p @ [i])"
  shows "scopeFqn (deref (globalScope st) (p @ [i])) =
           (if p = [] then scopeName (deref (globalScope st) (p @ [i]))
            else scopeFqn (deref (globalScope st) p) @ ''::'' @ scopeName (deref (globalScope st) (p @ [i])))"
proof -
  let ?g = "globalScope st"
  let ?s = "deref ?g p"
  from w have g0: "scopeFqn ?g = []" and wg: "wfScope ?g" by (simp_all add: wfTable_def)
  from v have vp: "validPtr ?g p" and i: "i < length (children ?s)" by (simp_all add: validPtr_append)
  have ws: "wfScope ?s" using wg vp by (rule wfScope_deref)
  have "children ?s ! i \<in> set (children ?s)" using i by simp
  then have "scopeFqn (children ?s ! i) = qualify (scopeFqn ?s) (scopeName (children ?s ! i))"
    using ws by (subst (asm) wfScope_unfold) simp
  then show ?thesis using scopeFqn_nonempty[OF wg g0 vp] by (simp add: deref_append qualify_def)
qed

lemma build_fqn:
  assumes w: "wfTable st"
  shows "buildFullyQualifiedName st nm =
           (if currentScope st = [] then nm else scopeFqn (current st) @ ''::'' @ nm)"
  using w scopeFqn_nonempty[of "globalScope st" "currentScope st"]
  by (simp add: wfTable_def buildFullyQualifiedName_def current_def)

section \<open>The arithmetic of \<^verbatim>\<open>double\<close> at work\<close>

text \<open>
  Signed zeros and infinities, a value the format holds exactly, and a product too large
  for the format.
\<close>

lemma division_by_signed_zero:
  "dDiv (Finite False 1) (Finite False 0) = Infinity False
   \<and> dDiv (Finite False 1) (Finite True 0) = Infinity True
   \<and> dDiv (Finite False 0) (Finite False 0) = NaN
   \<and> dNeg (Finite False 0) = Finite True 0
   \<and> dAdd (Finite True 0) (Finite True 0) = Finite True 0
   \<and> dAdd (Finite False 0) (Finite True 0) = Finite False 0"
  by simp

lemma spacing_one: "spacing 1 = 2 powr (- 52)"
  by (simp add: spacing_def)

lemma roundToDouble_one: "roundToDouble False 1 = Finite False 1"
proof -
  have p: "(2::real) powr (- 52) = 1 / 2 ^ 52" by (simp add: powr_minus_divide powr_numeral)
  have "roundHalfEven (2 ^ 52) = 2 ^ 52"
    by (simp add: roundHalfEven_def Let_def)
  then show ?thesis
    by (simp add: roundToDouble_def spacing_one p Let_def)
qed

lemma product_overflows:
  "dMul (Finite False (2 ^ 1023)) (Finite True 2) = Infinity True"
proof -
  have l: "\<lfloor>log 2 ((2::real) ^ n)\<rfloor> = int n" for n by (simp add: log_nat_power)
  have pw: "(2::real) powr (of_int (int n) - 52) = 2 ^ (n - 52)" if "52 \<le> n" for n
    using that by (simp add: powr_realpow[symmetric] of_nat_diff)
  have s: "spacing ((2::real) ^ 1024) = 2 ^ 972"
    unfolding spacing_def l[of 1024] using pw[of 1024] by simp
  have e: "(2::real) ^ 1023 * 2 = 2 ^ 1024" by simp
  have q: "(2::real) ^ 1024 / 2 ^ 972 = 2 ^ 52" by simp
  have r: "roundHalfEven (2 ^ 52) = 2 ^ 52" by (simp add: roundHalfEven_def Let_def)
  have m: "real_of_int (2 ^ 52) * 2 ^ 972 = 2 ^ 1024" by simp
  have n0: "(2::real) ^ 1024 \<noteq> 0" by simp
  show ?thesis
    unfolding dMul.simps e roundToDouble_def s q r Let_def m
    using n0 by (simp only: if_False order_refl if_True simp_thms)
qed

lemma validPtr_enterScope:
  assumes "validPtr (globalScope st) (currentScope st)"
  shows "validPtr (globalScope (enterScope nm st)) (currentScope (enterScope nm st))"
proof (cases "firstNamed (children (current st)) nm")
  case (Some i)
  then have "i < length (children (current st))" using firstNamed_Some by blast
  then show ?thesis using Some assms
    by (simp add: enterScope_def Scope_getChildScope_def current_def validPtr_append)
next
  case None
  then show ?thesis using validPtr_assign[OF assms]
    by (simp add: enterScope_def Scope_getChildScope_def current_def Scope_createChildScope_def)
qed

lemma validPtr_leaveScope:
  assumes "validPtr (globalScope st) (currentScope st)"
  shows "validPtr (globalScope (leaveScope st)) (currentScope (leaveScope st))"
proof (cases "currentScope st = []")
  case True
  then show ?thesis using assms by (simp add: leaveScope_def)
next
  case False
  then have "currentScope st = butlast (currentScope st) @ [last (currentScope st)]" by simp
  then have "validPtr (globalScope st) (butlast (currentScope st))"
    using assms validPtr_append[of "globalScope st" "butlast (currentScope st)" "[last (currentScope st)]"]
    by simp
  then show ?thesis using False by (simp add: leaveScope_def)
qed

lemma validPtr_addSymbol:
  assumes "validPtr (globalScope st) (currentScope st)"
  shows "validPtr (globalScope (snd (addSymbol nm k nd st))) (currentScope (snd (addSymbol nm k nd st)))"
  using validPtr_assign[OF assms, of _ "[]"] assms
  by (simp add: addSymbol_def Scope_addSymbol_def Let_def split: option.splits prod.splits)

lemma validPtr_run:
  "validPtr (globalScope st) (currentScope st)
   \<Longrightarrow> validPtr (globalScope (run ops st)) (currentScope (run ops st))"
  unfolding run_def
proof (induction ops arbitrary: st)
  case Nil
  then show ?case by simp
next
  case (Cons op ops)
  have "validPtr (globalScope (applyOp op st)) (currentScope (applyOp op st))"
    using Cons.prems
    by (cases op) (simp_all add: validPtr_enterScope validPtr_leaveScope validPtr_addSymbol)
  then show ?case using Cons.IH by simp
qed

lemma validPtr_reachable:
  "validPtr (globalScope (run ops SymbolTable_new)) (currentScope (run ops SymbolTable_new))"
  by (rule validPtr_run) (simp add: SymbolTable_new_def)

lemma find_map_option:
  "List.find P (map f xs) = map_option f (List.find (\<lambda>x. P (f x)) xs)"
  by (induction xs) auto

lemma firstNamed_find:
  "firstNamed cs nm = List.find (\<lambda>i. scopeName (cs ! i) = nm) [0..<length cs]"
proof (induction cs)
  case Nil
  then show ?case by simp
next
  case (Cons c cs)
  have "[0..<length (c # cs)] = 0 # map Suc [0..<length cs]"
    by (simp add: upt_conv_Cons map_Suc_upt del: upt_Suc)
  then show ?case using Cons by (simp add: find_map_option del: upt_Suc)
qed

lemma getChildScope_childNamed: "Scope_getChildScope s nm = childNamed s nm"
  by (simp add: Scope_getChildScope_def childNamed_def firstNamed_find)

lemma walkChildren_Nil: "walkChildren g p [] = Some p"
  by (simp add: walkChildren_def)

lemma foldl_absent:
  "foldl (\<lambda>pos nm. case pos of None \<Rightarrow> None
                    | Some p \<Rightarrow> map_option (\<lambda>i. p @ [i]) (childNamed (deref g p) nm))
         None names = None"
  by (induction names) simp_all

lemma walkChildren_Cons:
  "walkChildren g p (nm # names) =
     (case childNamed (deref g p) nm of
        None \<Rightarrow> None
      | Some i \<Rightarrow> walkChildren g (p @ [i]) names)"
  by (cases "childNamed (deref g p) nm") (simp_all add: walkChildren_def foldl_absent)

lemma descend_walkChildren: "descend g p names = walkChildren g p names"
  by (induction names arbitrary: p)
     (simp_all add: walkChildren_Nil walkChildren_Cons getChildScope_childNamed split: option.splits)

lemma towardsGlobal_Nil: "towardsGlobal [] = [[]]"
  by (simp add: towardsGlobal_def)

lemma towardsGlobal_snoc: "towardsGlobal (q @ [i]) = (q @ [i]) # towardsGlobal q"
  by (simp add: towardsGlobal_def)

lemma Scope_lookup_find:
  "Scope_lookup g p nm =
     (case List.find (\<lambda>a. symbols (deref g a) nm \<noteq> None) (towardsGlobal p) of
        None \<Rightarrow> None
      | Some a \<Rightarrow> symbols (deref g a) nm)"
proof (induction p rule: rev_induct)
  case Nil
  show ?case
    by (subst Scope_lookup.simps) (auto simp: towardsGlobal_Nil Scope_lookupLocal_def split: option.splits)
next
  case (snoc i q)
  show ?case
    using snoc
    by (subst Scope_lookup.simps)
       (auto simp: towardsGlobal_snoc Scope_lookupLocal_def split: option.splits)
qed

lemma walkUp_find:
  assumes "length parts \<noteq> 1"
  shows "walkUp g p parts =
           (case List.find (\<lambda>a. childNamed (deref g a) (hd parts) \<noteq> None) (towardsGlobal p) of
              None \<Rightarrow> Exhausted
            | Some a \<Rightarrow> Break (a @ [the (childNamed (deref g a) (hd parts))]))"
proof (induction p rule: rev_induct)
  case Nil
  show ?case
    using assms
    by (subst walkUp.simps)
       (auto simp: towardsGlobal_Nil getChildScope_childNamed split: option.splits)
next
  case (snoc i q)
  show ?case
    using snoc assms
    by (subst walkUp.simps)
       (auto simp: towardsGlobal_snoc getChildScope_childNamed split: option.splits)
qed

lemma navigate_spec:
  assumes "parts \<noteq> []"
  shows "navigate g start 0 parts =
           (case walkChildren g start (take (length parts - 1) parts) of
              None \<Rightarrow> None
            | Some s \<Rightarrow> symbols (deref g s) (parts ! (length parts - 1)))"
    and "navigate g start 1 parts =
           (case walkChildren g start (take (length parts - 2) (drop 1 parts)) of
              None \<Rightarrow> None
            | Some s \<Rightarrow> symbols (deref g s) (parts ! (length parts - 1)))"
proof -
  have bl: "butlast parts = take (length parts - 1) parts" by (rule butlast_conv_take)
  have la: "last parts = parts ! (length parts - 1)" using assms by (rule last_conv_nth)
  have dr: "drop 1 (butlast parts) = take (length parts - 2) (drop 1 parts)"
    by (simp add: bl drop_take numeral_2_eq_2)
  show "navigate g start 0 parts =
           (case walkChildren g start (take (length parts - 1) parts) of
              None \<Rightarrow> None
            | Some s \<Rightarrow> symbols (deref g s) (parts ! (length parts - 1)))"
    unfolding navigate_def descend_walkChildren Scope_lookupLocal_def la
    by (simp only: drop_0 bl)
  show "navigate g start 1 parts =
           (case walkChildren g start (take (length parts - 2) (drop 1 parts)) of
              None \<Rightarrow> None
            | Some s \<Rightarrow> symbols (deref g s) (parts ! (length parts - 1)))"
    unfolding navigate_def descend_walkChildren Scope_lookupLocal_def la dr ..
qed

section \<open>Running the parser and the generator on concrete inputs\<close>

text \<open>
  The fuel-indexed parsers unfold one level at a numeral, and the loops of \<open>advance\<close>,
  \<open>identifierLoop\<close>, \<open>synchronize\<close> and \<open>Scope_lookup\<close> unfold one iteration when the
  tests that decide the iteration are known.
\<close>

lemmas fuel_numeral =
  parseConstExpr.simps(2)[of "pred_numeral k", folded numeral_eq_Suc]
  parseOrExpr.simps(2)[of "pred_numeral k", folded numeral_eq_Suc]
  orLoop.simps(2)[of "pred_numeral k", folded numeral_eq_Suc]
  parseXorExpr.simps(2)[of "pred_numeral k", folded numeral_eq_Suc]
  xorLoop.simps(2)[of "pred_numeral k", folded numeral_eq_Suc]
  parseAndExpr.simps(2)[of "pred_numeral k", folded numeral_eq_Suc]
  andLoop.simps(2)[of "pred_numeral k", folded numeral_eq_Suc]
  parseShiftExpr.simps(2)[of "pred_numeral k", folded numeral_eq_Suc]
  shiftLoop.simps(2)[of "pred_numeral k", folded numeral_eq_Suc]
  parseAddExpr.simps(2)[of "pred_numeral k", folded numeral_eq_Suc]
  addLoop.simps(2)[of "pred_numeral k", folded numeral_eq_Suc]
  parseMulExpr.simps(2)[of "pred_numeral k", folded numeral_eq_Suc]
  mulLoop.simps(2)[of "pred_numeral k", folded numeral_eq_Suc]
  parseUnaryExpr.simps(2)[of "pred_numeral k", folded numeral_eq_Suc]
  parsePrimaryExpr.simps(2)[of "pred_numeral k", folded numeral_eq_Suc]
  parseTypeSpec.simps(2)[of "pred_numeral k", folded numeral_eq_Suc]
  parseSequenceType.simps(2)[of "pred_numeral k", folded numeral_eq_Suc]
  dimensionLoop.simps(2)[of "pred_numeral k", folded numeral_eq_Suc]
  declaratorLoop.simps(2)[of "pred_numeral k", folded numeral_eq_Suc]
  memberLoop.simps(2)[of "pred_numeral k", folded numeral_eq_Suc]
  for k

lemma advance_scan:
  "scans (lexer p) = (tok, errs) # rest \<Longrightarrow> tokType tok \<noteq> LineDirective
   \<Longrightarrow> tokType tok \<noteq> Unknown
   \<Longrightarrow> advance p =
         p\<lparr> previousToken := currentToken p,
            lexer := (lexer p)\<lparr> scans := rest, lexErrors := lexErrors (lexer p) @ errs \<rparr>,
            currentToken := tok \<rparr>"
  unfolding advance_def by (subst advanceLoop.simps) (simp add: nextToken_def Let_def)

lemma advance_end:
  "scans (lexer p) = []
   \<Longrightarrow> advance p =
         p\<lparr> previousToken := currentToken p,
            currentToken := \<lparr> tokType = Eof, tokValue = TV_monostate, tokText = [],
                              tokLocation = endLocation (lexer p) \<rparr> \<rparr>"
  unfolding advance_def by (subst advanceLoop.simps) (simp add: nextToken_def Let_def)

lemma identifierLoop_stop:
  "\<not> check p Identifier \<Longrightarrow> identifierLoop sep f parts p = (parts, f p)"
  by (subst identifierLoop.simps) simp

lemma identifierLoop_more:
  "check p Identifier \<Longrightarrow> check (advance p) sep
   \<Longrightarrow> identifierLoop sep f parts p =
         identifierLoop sep f (parts @ [tokText (currentToken p)]) (advance (advance p))"
  by (subst identifierLoop.simps) simp

lemma identifierLoop_last:
  "check p Identifier \<Longrightarrow> \<not> check (advance p) sep
   \<Longrightarrow> identifierLoop sep f parts p = (parts @ [tokText (currentToken p)], advance p)"
  by (subst identifierLoop.simps) simp




lemma to_string_digit: "n < 10 \<Longrightarrow> to_string n = [digitChar n]"
  by (subst to_string.simps) simp

lemma to_string_more:
  "\<not> n < 10 \<Longrightarrow> to_string n = to_string (n div 10) @ [digitChar (n mod 10)]"
  by (subst to_string.simps) simp

lemma Scope_lookup_here:
  "symbols (deref g this) nm = Some x \<Longrightarrow> Scope_lookup g this nm = Some x"
  by (subst Scope_lookup.simps) (simp add: Scope_lookupLocal_def)

lemma Scope_lookup_global:
  "symbols g nm = None \<Longrightarrow> Scope_lookup g [] nm = None"
  by (subst Scope_lookup.simps) (simp add: Scope_lookupLocal_def)

lemma Scope_lookup_parent:
  "symbols (deref g (q @ [i])) nm = None
   \<Longrightarrow> Scope_lookup g (q @ [i]) nm = Scope_lookup g q nm"
  by (subst Scope_lookup.simps) (simp add: Scope_lookupLocal_def)

lemmas token_step =
  newParser_def advance_scan advance_end check_def match_def expect_def
  expectSemicolon_def error_def errorAt_def warning_def lexerOf_def plainToken_def
  identifierToken_def integerToken_def floatToken_def defaultToken_def Let_def
  identifierLoop_stop identifierLoop_more identifierLoop_last onTable_def

lemmas table_step =
  addSymbol_def Scope_addSymbol_def buildFullyQualifiedName_def current_def
  SymbolTable_new_def Scope_new_def enterScope_def leaveScope_def Scope_getChildScope_def
  Scope_createChildScope_def getCurrentScopeName_def Let_def

lemmas type_step =
  parseSimpleTypeSpec_def isTypeKeyword_def parseBaseTypeSpec_def parseBasicType_def
  parseScopedName_def parseStringType_def toBound_def parseDeclarators_def
  parseDeclarator_def toSize_def

lemmas lookup_step =
  resolveConstant_def lookupScoped_def Scope_lookup_here Scope_lookup_global
  Scope_lookup_parent

lemmas generator_step =
  generateStruct_def generateTypedef_def typedefLine_def writeHeaderLine_def getIndent_def
  indent_def outdent_def mapBasicType_def newGenerator_def defaultConfig_def wrapArrays_def
  wrapArray_def Let_def

lemmas struct_step = parseStruct_def parseStructMember_def


section \<open>What the token helpers keep, and where \<open>synchronize\<close> stops\<close>








section \<open>Declarator lists\<close>



section \<open>Child scopes are declared in the tables the parser builds\<close>

lemma childrenDeclared_unfold:
  "childrenDeclared s =
     (\<forall>c \<in> set (children s). symbols s (scopeName c) \<noteq> None \<and> childrenDeclared c)"
  by (cases s) simp

lemma childrenDeclared_child:
  "childrenDeclared g \<Longrightarrow> i < length (children g) \<Longrightarrow> childrenDeclared (children g ! i)"
  by (subst (asm) childrenDeclared_unfold) simp

lemma childrenDeclared_deref:
  "childrenDeclared g \<Longrightarrow> validPtr g p \<Longrightarrow> childrenDeclared (deref g p)"
  by (induction g p rule: validPtr.induct)
     (auto simp: childrenDeclared_child simp del: childrenDeclared.simps)

lemma childrenDeclared_assign:
  "childrenDeclared g \<Longrightarrow> validPtr g p \<Longrightarrow> childrenDeclared s
   \<Longrightarrow> scopeName s = scopeName (deref g p) \<Longrightarrow> childrenDeclared (assign g p s)"
proof (induction g p arbitrary: s rule: validPtr.induct)
  case (1 g)
  then show ?case by simp
next
  case (2 g i p)
  let ?c = "children g ! i"
  let ?c' = "assign ?c p s"
  from 2 have i: "i < length (children g)" and vp: "validPtr ?c p" by auto
  have dc: "childrenDeclared ?c" using "2.prems"(1) i by (rule childrenDeclared_child)
  have dc': "childrenDeclared ?c'" using "2.IH" dc vp "2.prems" by simp
  have nm: "scopeName ?c' = scopeName ?c" using assign_name vp "2.prems" by simp
  have g: "childrenDeclared g" by fact
  have "\<forall>c \<in> set ((children g)[i := ?c']). symbols g (scopeName c) \<noteq> None \<and> childrenDeclared c"
  proof
    fix c assume "c \<in> set ((children g)[i := ?c'])"
    then have "c = ?c' \<or> c \<in> set (children g)"
      using set_update_subset_insert[of "children g" i ?c'] by auto
    then show "symbols g (scopeName c) \<noteq> None \<and> childrenDeclared c"
    proof
      assume "c = ?c'"
      moreover have "?c \<in> set (children g)" using i by simp
      ultimately show ?thesis using dc' nm g by (subst (asm) childrenDeclared_unfold) auto
    next
      assume "c \<in> set (children g)"
      then show ?thesis using g by (subst (asm) childrenDeclared_unfold) auto
    qed
  qed
  then show ?case by (subst childrenDeclared_unfold) simp
qed

lemma declaredTable_new: "declaredTable SymbolTable_new"
  by (simp add: declaredTable_def SymbolTable_new_def Scope_new_def)

lemma declaredTable_leaveScope: "declaredTable st \<Longrightarrow> declaredTable (leaveScope st)"
  using validPtr_append[of "globalScope st" "butlast (currentScope st)" "[last (currentScope st)]"]
  by (auto simp: declaredTable_def leaveScope_def)

lemma declaredTable_addSymbol:
  assumes d: "declaredTable st"
  shows "declaredTable (snd (addSymbol nm k nd st))"
    and "symbols (current (snd (addSymbol nm k nd st))) nm \<noteq> None"
proof -
  let ?g = "globalScope st" and ?p = "currentScope st"
  let ?cur = "deref ?g ?p"
  from d have dg: "childrenDeclared ?g" and vp: "validPtr ?g ?p"
    by (simp_all add: declaredTable_def)
  have dcur: "childrenDeclared ?cur" using dg vp by (rule childrenDeclared_deref)
  have "declaredTable (snd (addSymbol nm k nd st))
        \<and> symbols (current (snd (addSymbol nm k nd st))) nm \<noteq> None"
  proof (cases "symbols ?cur nm")
    case (Some a)
    then show ?thesis
      using d by (simp add: addSymbol_def Scope_addSymbol_def current_def assign_deref)
  next
    case None
    let ?x = "\<lparr> name = nm, fullyQualifiedName = buildFullyQualifiedName st nm,
                kind = k, node = nd, scope = scopeFqn ?cur \<rparr>"
    let ?s' = "Scope (scopeName ?cur) (scopeFqn ?cur) ((symbols ?cur)(nm \<mapsto> ?x)) (children ?cur)"
    have ds': "childrenDeclared ?s'"
      using dcur by (subst (asm) childrenDeclared_unfold) auto
    have da: "childrenDeclared (assign ?g ?p ?s')"
      using dg vp ds' by (rule childrenDeclared_assign) simp
    have va: "validPtr (assign ?g ?p ?s') ?p"
      using validPtr_assign[OF vp, of ?s' "[]"] by simp
    have r: "snd (addSymbol nm k nd st) = st\<lparr> globalScope := assign ?g ?p ?s' \<rparr>"
      using None by (simp add: addSymbol_def Scope_addSymbol_def current_def)
    show ?thesis
      unfolding r using da va deref_assign[OF vp, of ?s']
      by (simp add: declaredTable_def current_def)
  qed
  then show "declaredTable (snd (addSymbol nm k nd st))"
    and "symbols (current (snd (addSymbol nm k nd st))) nm \<noteq> None"
    by simp_all
qed

lemma declaredTable_enterScope:
  assumes d: "declaredTable st" and s: "symbols (current st) nm \<noteq> None"
  shows "declaredTable (enterScope nm st)"
proof -
  let ?g = "globalScope st" and ?p = "currentScope st"
  let ?cur = "deref ?g ?p"
  from d have dg: "childrenDeclared ?g" and vp: "validPtr ?g ?p"
    by (simp_all add: declaredTable_def)
  have dcur: "childrenDeclared ?cur" using dg vp by (rule childrenDeclared_deref)
  show ?thesis
  proof (cases "firstNamed (children ?cur) nm")
    case (Some i)
    then have "i < length (children ?cur)" by (simp add: firstNamed_Some)
    then have "validPtr ?g (?p @ [i])" using vp by (simp add: validPtr_append)
    then show ?thesis using Some dg
      by (simp add: enterScope_def Scope_getChildScope_def current_def declaredTable_def)
  next
    case None
    let ?new = "Scope_new nm (Some ?cur)"
    let ?s' = "Scope (scopeName ?cur) (scopeFqn ?cur) (symbols ?cur) (children ?cur @ [?new])"
    have dn: "childrenDeclared ?new" by (simp add: Scope_new_def)
    have ds': "childrenDeclared ?s'"
      using dcur dn s
      by (subst (asm) childrenDeclared_unfold) (auto simp: Scope_new_sel current_def)
    have da: "childrenDeclared (assign ?g ?p ?s')"
      using dg vp ds' by (rule childrenDeclared_assign) simp
    have va: "validPtr (assign ?g ?p ?s') (?p @ [length (children ?cur)])"
      using validPtr_assign[OF vp] by simp
    show ?thesis using None da va
      by (simp add: enterScope_def Scope_getChildScope_def current_def declaredTable_def
                    Scope_createChildScope_def)
  qed
qed

lemma declaredTable_entersAfter:
  "declaredTable st \<Longrightarrow> (\<And>nm. added = Some nm \<Longrightarrow> symbols (current st) nm \<noteq> None)
   \<Longrightarrow> entersAfter added ops \<Longrightarrow> declaredTable (run ops st)"
proof (induction ops arbitrary: st added)
  case Nil
  then show ?case by (simp add: run_def)
next
  case (Cons op ops)
  show ?case
  proof (cases op)
    case (EnterScope nm)
    with Cons.prems(3) have a: "added = Some nm" and r: "entersAfter None ops" by simp_all
    have "declaredTable (enterScope nm st)"
      using Cons.prems(1) Cons.prems(2)[OF a] by (rule declaredTable_enterScope)
    from Cons.IH[OF this _ r] show ?thesis using EnterScope by (simp add: run_def)
  next
    case LeaveScope
    with Cons.prems(3) have r: "entersAfter None ops" by simp
    from Cons.IH[OF declaredTable_leaveScope[OF Cons.prems(1)] _ r]
    show ?thesis using LeaveScope by (simp add: run_def)
  next
    case (AddSymbol nm k nd)
    with Cons.prems(3) have r: "entersAfter (Some nm) ops" by simp
    have "declaredTable (run ops (snd (addSymbol nm k nd st)))"
      using declaredTable_addSymbol[OF Cons.prems(1), of nm k nd] r
      by (intro Cons.IH) simp_all
    then show ?thesis using AddSymbol by (simp add: run_def)
  qed
qed

lemma declaredTable_run:
  "declaredTable st \<Longrightarrow> entersDeclared ops \<Longrightarrow> declaredTable (run ops st)"
  unfolding entersDeclared_def by (rule declaredTable_entersAfter) simp_all

lemma validPtr_towardsGlobal:
  "validPtr g p \<Longrightarrow> a \<in> set (towardsGlobal p) \<Longrightarrow> validPtr g a"
  by (auto simp: towardsGlobal_def prefix_def validPtr_append)

lemma childNamed_declared:
  assumes "childrenDeclared s" and "childNamed s nm \<noteq> None"
  shows "symbols s nm \<noteq> None"
proof -
  from assms(2) obtain i where "firstNamed (children s) nm = Some i"
    by (auto simp: getChildScope_childNamed[symmetric] Scope_getChildScope_def)
  then have "i < length (children s)" "scopeName (children s ! i) = nm"
    by (simp_all add: firstNamed_Some)
  then show ?thesis
    using assms(1) by (subst (asm) childrenDeclared_unfold) (auto dest: nth_mem)
qed

lemma find_same:
  "(\<And>x. x \<in> set xs \<Longrightarrow> P x = Q x) \<Longrightarrow> List.find P xs = List.find Q xs"
  by (induction xs) auto

section \<open>What \<open>advance\<close> adds to the list of diagnostics\<close>






section \<open>The recursion bound: results do not depend on it, and it can be met\<close>

text \<open>
  The parsers of expressions, types and declarators take a bound on the depth of their
  calls. Three facts make the bound harmless. A result other than \<open>Inl OutOfFuel\<close> stays
  the same under every larger bound. A parser never leaves more to read than it found.
  And a bound linear in what is left to read is always enough: \<open>Inl OutOfFuel\<close> is then
  not the result.
\<close>

lemmas expr_simps =
  parseConstExpr.simps
  parseOrExpr.simps
  orLoop.simps
  parseXorExpr.simps
  xorLoop.simps
  parseAndExpr.simps
  andLoop.simps
  parseShiftExpr.simps
  shiftLoop.simps
  parseAddExpr.simps
  addLoop.simps
  parseMulExpr.simps
  mulLoop.simps
  parseUnaryExpr.simps
  parsePrimaryExpr.simps

lemma bind_fuel:
  assumes "(case x of Inl e \<Rightarrow> Inl e | Inr (v, q) \<Rightarrow> k v q) \<noteq> Inl OutOfFuel"
  shows "x \<noteq> Inl OutOfFuel" and "\<And>v q. x = Inr (v, q) \<Longrightarrow> k v q \<noteq> Inl OutOfFuel"
  using assms by (auto split: sum.splits)

lemma bind_same:
  assumes "x' = x" and "\<And>v q. x = Inr (v, q) \<Longrightarrow> k' v q = k v q"
  shows "(case x' of Inl e \<Rightarrow> Inl e | Inr (v, q) \<Rightarrow> k' v q)
           = (case x of Inl e \<Rightarrow> Inl e | Inr (v, q) \<Rightarrow> k v q)"
  using assms by (auto split: sum.splits)


lemma fault_fuel:
  assumes "(case y of Inl e \<Rightarrow> Inl e | Inr v \<Rightarrow> k v) \<noteq> Inl OutOfFuel"
  shows "\<And>v. y = Inr v \<Longrightarrow> k v \<noteq> Inl OutOfFuel"
  using assms by (auto split: sum.splits)

lemma fault_same:
  assumes "\<And>v. y = Inr v \<Longrightarrow> k' v = k v"
  shows "(case y of Inl e \<Rightarrow> Inl e | Inr v \<Rightarrow> k' v)
           = (case y of Inl e \<Rightarrow> Inl e | Inr v \<Rightarrow> k v)"
  using assms by (auto split: sum.splits)




lemma stable_le:
  fixes f :: "nat \<Rightarrow> Abort + 'a"
  assumes step: "\<And>n. f n \<noteq> Inl OutOfFuel \<Longrightarrow> f (Suc n) = f n"
    and le: "n \<le> m" and ok: "f n \<noteq> Inl OutOfFuel"
  shows "f m = f n"
  using le
proof (induction m)
  case 0
  then show ?case by simp
next
  case (Suc m)
  show ?case
  proof (cases "n = Suc m")
    case True
    then show ?thesis by simp
  next
    case False
    with Suc.prems have "n \<le> m" by simp
    from Suc.IH[OF this] have e: "f m = f n" .
    have "f m \<noteq> Inl OutOfFuel" unfolding e by (rule ok)
    from step[OF this] show ?thesis unfolding e .
  qed
qed

text \<open>One more unit of the bound changes no result other than \<open>Inl OutOfFuel\<close>.\<close>

lemma fuel_stable_step:
  "(\<forall>p. parseConstExpr n p \<noteq> Inl OutOfFuel \<longrightarrow> parseConstExpr (Suc n) p = parseConstExpr n p)
   \<and> (\<forall>p. parseOrExpr n p \<noteq> Inl OutOfFuel \<longrightarrow> parseOrExpr (Suc n) p = parseOrExpr n p)
   \<and> (\<forall>left p. orLoop n left p \<noteq> Inl OutOfFuel \<longrightarrow> orLoop (Suc n) left p = orLoop n left p)
   \<and> (\<forall>p. parseXorExpr n p \<noteq> Inl OutOfFuel \<longrightarrow> parseXorExpr (Suc n) p = parseXorExpr n p)
   \<and> (\<forall>left p. xorLoop n left p \<noteq> Inl OutOfFuel \<longrightarrow> xorLoop (Suc n) left p = xorLoop n left p)
   \<and> (\<forall>p. parseAndExpr n p \<noteq> Inl OutOfFuel \<longrightarrow> parseAndExpr (Suc n) p = parseAndExpr n p)
   \<and> (\<forall>left p. andLoop n left p \<noteq> Inl OutOfFuel \<longrightarrow> andLoop (Suc n) left p = andLoop n left p)
   \<and> (\<forall>p. parseShiftExpr n p \<noteq> Inl OutOfFuel \<longrightarrow> parseShiftExpr (Suc n) p = parseShiftExpr n p)
   \<and> (\<forall>left p. shiftLoop n left p \<noteq> Inl OutOfFuel \<longrightarrow> shiftLoop (Suc n) left p = shiftLoop n left p)
   \<and> (\<forall>p. parseAddExpr n p \<noteq> Inl OutOfFuel \<longrightarrow> parseAddExpr (Suc n) p = parseAddExpr n p)
   \<and> (\<forall>left p. addLoop n left p \<noteq> Inl OutOfFuel \<longrightarrow> addLoop (Suc n) left p = addLoop n left p)
   \<and> (\<forall>p. parseMulExpr n p \<noteq> Inl OutOfFuel \<longrightarrow> parseMulExpr (Suc n) p = parseMulExpr n p)
   \<and> (\<forall>left p. mulLoop n left p \<noteq> Inl OutOfFuel \<longrightarrow> mulLoop (Suc n) left p = mulLoop n left p)
   \<and> (\<forall>p. parseUnaryExpr n p \<noteq> Inl OutOfFuel \<longrightarrow> parseUnaryExpr (Suc n) p = parseUnaryExpr n p)
   \<and> (\<forall>p. parsePrimaryExpr n p \<noteq> Inl OutOfFuel \<longrightarrow> parsePrimaryExpr (Suc n) p = parsePrimaryExpr n p)"
proof (induction n)
  case 0
  show ?case by simp
next
  case (Suc n)
  note ih_parseConstExpr = Suc.IH[THEN conjunct1, rule_format]
  note ih_parseOrExpr = Suc.IH[THEN conjunct2, THEN conjunct1, rule_format]
  note ih_orLoop = Suc.IH[THEN conjunct2, THEN conjunct2, THEN conjunct1, rule_format]
  note ih_parseXorExpr = Suc.IH[THEN conjunct2, THEN conjunct2, THEN conjunct2, THEN conjunct1, rule_format]
  note ih_xorLoop = Suc.IH[THEN conjunct2, THEN conjunct2, THEN conjunct2, THEN conjunct2, THEN conjunct1, rule_format]
  note ih_parseAndExpr = Suc.IH[THEN conjunct2, THEN conjunct2, THEN conjunct2, THEN conjunct2, THEN conjunct2, THEN conjunct1, rule_format]
  note ih_andLoop = Suc.IH[THEN conjunct2, THEN conjunct2, THEN conjunct2, THEN conjunct2, THEN conjunct2, THEN conjunct2, THEN conjunct1, rule_format]
  note ih_parseShiftExpr = Suc.IH[THEN conjunct2, THEN conjunct2, THEN conjunct2, THEN conjunct2, THEN conjunct2, THEN conjunct2, THEN conjunct2, THEN conjunct1, rule_format]
  note ih_shiftLoop = Suc.IH[THEN conjunct2, THEN conjunct2, THEN conjunct2, THEN conjunct2, THEN conjunct2, THEN conjunct2, THEN conjunct2, THEN conjunct2, THEN conjunct1, rule_format]
  note ih_parseAddExpr = Suc.IH[THEN conjunct2, THEN conjunct2, THEN conjunct2, THEN conjunct2, THEN conjunct2, THEN conjunct2, THEN conjunct2, THEN conjunct2, THEN conjunct2, THEN conjunct1, rule_format]
  note ih_addLoop = Suc.IH[THEN conjunct2, THEN conjunct2, THEN conjunct2, THEN conjunct2, THEN conjunct2, THEN conjunct2, THEN conjunct2, THEN conjunct2, THEN conjunct2, THEN conjunct2, THEN conjunct1, rule_format]
  note ih_parseMulExpr = Suc.IH[THEN conjunct2, THEN conjunct2, THEN conjunct2, THEN conjunct2, THEN conjunct2, THEN conjunct2, THEN conjunct2, THEN conjunct2, THEN conjunct2, THEN conjunct2, THEN conjunct2, THEN conjunct1, rule_format]
  note ih_mulLoop = Suc.IH[THEN conjunct2, THEN conjunct2, THEN conjunct2, THEN conjunct2, THEN conjunct2, THEN conjunct2, THEN conjunct2, THEN conjunct2, THEN conjunct2, THEN conjunct2, THEN conjunct2, THEN conjunct2, THEN conjunct1, rule_format]
  note ih_parseUnaryExpr = Suc.IH[THEN conjunct2, THEN conjunct2, THEN conjunct2, THEN conjunct2, THEN conjunct2, THEN conjunct2, THEN conjunct2, THEN conjunct2, THEN conjunct2, THEN conjunct2, THEN conjunct2, THEN conjunct2, THEN conjunct2, THEN conjunct1, rule_format]
  note ih_parsePrimaryExpr = Suc.IH[THEN conjunct2, THEN conjunct2, THEN conjunct2, THEN conjunct2, THEN conjunct2, THEN conjunct2, THEN conjunct2, THEN conjunct2, THEN conjunct2, THEN conjunct2, THEN conjunct2, THEN conjunct2, THEN conjunct2, THEN conjunct2, rule_format]
  have s_parseConstExpr: "parseConstExpr (Suc (Suc n)) p = parseConstExpr (Suc n) p"
    if a: "parseConstExpr (Suc n) p \<noteq> Inl OutOfFuel" for p
  proof -
    note a' = a[unfolded parseConstExpr.simps(2)[of n]]
    show ?thesis
      unfolding parseConstExpr.simps(2)[of "Suc n"] parseConstExpr.simps(2)[of n]
      by (rule ih_parseOrExpr[OF a'])
  qed
  have s_parseOrExpr: "parseOrExpr (Suc (Suc n)) p = parseOrExpr (Suc n) p"
    if a: "parseOrExpr (Suc n) p \<noteq> Inl OutOfFuel" for p
  proof -
    note a' = a[unfolded parseOrExpr.simps(2)[of n]]
    show ?thesis
      unfolding parseOrExpr.simps(2)[of "Suc n"] parseOrExpr.simps(2)[of n]
      by (rule bind_same) (rule ih_parseXorExpr[OF bind_fuel(1)[OF a']], rule ih_orLoop[OF bind_fuel(2)[OF a']])
  qed
  have s_parseXorExpr: "parseXorExpr (Suc (Suc n)) p = parseXorExpr (Suc n) p"
    if a: "parseXorExpr (Suc n) p \<noteq> Inl OutOfFuel" for p
  proof -
    note a' = a[unfolded parseXorExpr.simps(2)[of n]]
    show ?thesis
      unfolding parseXorExpr.simps(2)[of "Suc n"] parseXorExpr.simps(2)[of n]
      by (rule bind_same) (rule ih_parseAndExpr[OF bind_fuel(1)[OF a']], rule ih_xorLoop[OF bind_fuel(2)[OF a']])
  qed
  have s_parseAndExpr: "parseAndExpr (Suc (Suc n)) p = parseAndExpr (Suc n) p"
    if a: "parseAndExpr (Suc n) p \<noteq> Inl OutOfFuel" for p
  proof -
    note a' = a[unfolded parseAndExpr.simps(2)[of n]]
    show ?thesis
      unfolding parseAndExpr.simps(2)[of "Suc n"] parseAndExpr.simps(2)[of n]
      by (rule bind_same) (rule ih_parseShiftExpr[OF bind_fuel(1)[OF a']], rule ih_andLoop[OF bind_fuel(2)[OF a']])
  qed
  have s_parseShiftExpr: "parseShiftExpr (Suc (Suc n)) p = parseShiftExpr (Suc n) p"
    if a: "parseShiftExpr (Suc n) p \<noteq> Inl OutOfFuel" for p
  proof -
    note a' = a[unfolded parseShiftExpr.simps(2)[of n]]
    show ?thesis
      unfolding parseShiftExpr.simps(2)[of "Suc n"] parseShiftExpr.simps(2)[of n]
      by (rule bind_same) (rule ih_parseAddExpr[OF bind_fuel(1)[OF a']], rule ih_shiftLoop[OF bind_fuel(2)[OF a']])
  qed
  have s_parseAddExpr: "parseAddExpr (Suc (Suc n)) p = parseAddExpr (Suc n) p"
    if a: "parseAddExpr (Suc n) p \<noteq> Inl OutOfFuel" for p
  proof -
    note a' = a[unfolded parseAddExpr.simps(2)[of n]]
    show ?thesis
      unfolding parseAddExpr.simps(2)[of "Suc n"] parseAddExpr.simps(2)[of n]
      by (rule bind_same) (rule ih_parseMulExpr[OF bind_fuel(1)[OF a']], rule ih_addLoop[OF bind_fuel(2)[OF a']])
  qed
  have s_parseMulExpr: "parseMulExpr (Suc (Suc n)) p = parseMulExpr (Suc n) p"
    if a: "parseMulExpr (Suc n) p \<noteq> Inl OutOfFuel" for p
  proof -
    note a' = a[unfolded parseMulExpr.simps(2)[of n]]
    show ?thesis
      unfolding parseMulExpr.simps(2)[of "Suc n"] parseMulExpr.simps(2)[of n]
      by (rule bind_same) (rule ih_parseUnaryExpr[OF bind_fuel(1)[OF a']], rule ih_mulLoop[OF bind_fuel(2)[OF a']])
  qed
  have b_orLoop_foldOr:
    "(case parseXorExpr (Suc n) q of Inl e \<Rightarrow> Inl e
      | Inr (right, p1) \<Rightarrow> orLoop (Suc n) (foldOr left right) p1)
     = (case parseXorExpr n q of Inl e \<Rightarrow> Inl e
      | Inr (right, p1) \<Rightarrow> orLoop n (foldOr left right) p1)"
    if c: "(case parseXorExpr n q of Inl e \<Rightarrow> Inl e
      | Inr (right, p1) \<Rightarrow> orLoop n (foldOr left right) p1) \<noteq> Inl OutOfFuel" for q left
    by (rule bind_same) (rule ih_parseXorExpr[OF bind_fuel(1)[OF c]], rule ih_orLoop[OF bind_fuel(2)[OF c]])
  have s_orLoop: "orLoop (Suc (Suc n)) left p = orLoop (Suc n) left p"
    if a: "orLoop (Suc n) left p \<noteq> Inl OutOfFuel" for left p
    unfolding orLoop.simps(2)[of "Suc n" left p] orLoop.simps(2)[of n left p]
    using a[unfolded orLoop.simps(2)[of n left p]] b_orLoop_foldOr
    by (auto simp del: expr_simps split: if_splits)
  have b_xorLoop_foldXor:
    "(case parseAndExpr (Suc n) q of Inl e \<Rightarrow> Inl e
      | Inr (right, p1) \<Rightarrow> xorLoop (Suc n) (foldXor left right) p1)
     = (case parseAndExpr n q of Inl e \<Rightarrow> Inl e
      | Inr (right, p1) \<Rightarrow> xorLoop n (foldXor left right) p1)"
    if c: "(case parseAndExpr n q of Inl e \<Rightarrow> Inl e
      | Inr (right, p1) \<Rightarrow> xorLoop n (foldXor left right) p1) \<noteq> Inl OutOfFuel" for q left
    by (rule bind_same) (rule ih_parseAndExpr[OF bind_fuel(1)[OF c]], rule ih_xorLoop[OF bind_fuel(2)[OF c]])
  have s_xorLoop: "xorLoop (Suc (Suc n)) left p = xorLoop (Suc n) left p"
    if a: "xorLoop (Suc n) left p \<noteq> Inl OutOfFuel" for left p
    unfolding xorLoop.simps(2)[of "Suc n" left p] xorLoop.simps(2)[of n left p]
    using a[unfolded xorLoop.simps(2)[of n left p]] b_xorLoop_foldXor
    by (auto simp del: expr_simps split: if_splits)
  have b_andLoop_foldAnd:
    "(case parseShiftExpr (Suc n) q of Inl e \<Rightarrow> Inl e
      | Inr (right, p1) \<Rightarrow> andLoop (Suc n) (foldAnd left right) p1)
     = (case parseShiftExpr n q of Inl e \<Rightarrow> Inl e
      | Inr (right, p1) \<Rightarrow> andLoop n (foldAnd left right) p1)"
    if c: "(case parseShiftExpr n q of Inl e \<Rightarrow> Inl e
      | Inr (right, p1) \<Rightarrow> andLoop n (foldAnd left right) p1) \<noteq> Inl OutOfFuel" for q left
    by (rule bind_same) (rule ih_parseShiftExpr[OF bind_fuel(1)[OF c]], rule ih_andLoop[OF bind_fuel(2)[OF c]])
  have s_andLoop: "andLoop (Suc (Suc n)) left p = andLoop (Suc n) left p"
    if a: "andLoop (Suc n) left p \<noteq> Inl OutOfFuel" for left p
    unfolding andLoop.simps(2)[of "Suc n" left p] andLoop.simps(2)[of n left p]
    using a[unfolded andLoop.simps(2)[of n left p]] b_andLoop_foldAnd
    by (auto simp del: expr_simps split: if_splits)
  have b_shiftLoop_foldShl:
    "(case parseAddExpr (Suc n) q of Inl e \<Rightarrow> Inl e
      | Inr (right, p1) \<Rightarrow> shiftLoop (Suc n) (foldShl left right) p1)
     = (case parseAddExpr n q of Inl e \<Rightarrow> Inl e
      | Inr (right, p1) \<Rightarrow> shiftLoop n (foldShl left right) p1)"
    if c: "(case parseAddExpr n q of Inl e \<Rightarrow> Inl e
      | Inr (right, p1) \<Rightarrow> shiftLoop n (foldShl left right) p1) \<noteq> Inl OutOfFuel" for q left
    by (rule bind_same) (rule ih_parseAddExpr[OF bind_fuel(1)[OF c]], rule ih_shiftLoop[OF bind_fuel(2)[OF c]])
  have b_shiftLoop_foldShr:
    "(case parseAddExpr (Suc n) q of Inl e \<Rightarrow> Inl e
      | Inr (right, p1) \<Rightarrow> shiftLoop (Suc n) (foldShr left right) p1)
     = (case parseAddExpr n q of Inl e \<Rightarrow> Inl e
      | Inr (right, p1) \<Rightarrow> shiftLoop n (foldShr left right) p1)"
    if c: "(case parseAddExpr n q of Inl e \<Rightarrow> Inl e
      | Inr (right, p1) \<Rightarrow> shiftLoop n (foldShr left right) p1) \<noteq> Inl OutOfFuel" for q left
    by (rule bind_same) (rule ih_parseAddExpr[OF bind_fuel(1)[OF c]], rule ih_shiftLoop[OF bind_fuel(2)[OF c]])
  have s_shiftLoop: "shiftLoop (Suc (Suc n)) left p = shiftLoop (Suc n) left p"
    if a: "shiftLoop (Suc n) left p \<noteq> Inl OutOfFuel" for left p
    unfolding shiftLoop.simps(2)[of "Suc n" left p] shiftLoop.simps(2)[of n left p]
    using a[unfolded shiftLoop.simps(2)[of n left p]] b_shiftLoop_foldShl b_shiftLoop_foldShr
    by (auto simp del: expr_simps split: if_splits)
  have b_addLoop_foldPlus:
    "(case parseMulExpr (Suc n) q of Inl e \<Rightarrow> Inl e
      | Inr (right, p1) \<Rightarrow> addLoop (Suc n) (foldPlus left right) p1)
     = (case parseMulExpr n q of Inl e \<Rightarrow> Inl e
      | Inr (right, p1) \<Rightarrow> addLoop n (foldPlus left right) p1)"
    if c: "(case parseMulExpr n q of Inl e \<Rightarrow> Inl e
      | Inr (right, p1) \<Rightarrow> addLoop n (foldPlus left right) p1) \<noteq> Inl OutOfFuel" for q left
    by (rule bind_same) (rule ih_parseMulExpr[OF bind_fuel(1)[OF c]], rule ih_addLoop[OF bind_fuel(2)[OF c]])
  have b_addLoop_foldMinus:
    "(case parseMulExpr (Suc n) q of Inl e \<Rightarrow> Inl e
      | Inr (right, p1) \<Rightarrow> addLoop (Suc n) (foldMinus left right) p1)
     = (case parseMulExpr n q of Inl e \<Rightarrow> Inl e
      | Inr (right, p1) \<Rightarrow> addLoop n (foldMinus left right) p1)"
    if c: "(case parseMulExpr n q of Inl e \<Rightarrow> Inl e
      | Inr (right, p1) \<Rightarrow> addLoop n (foldMinus left right) p1) \<noteq> Inl OutOfFuel" for q left
    by (rule bind_same) (rule ih_parseMulExpr[OF bind_fuel(1)[OF c]], rule ih_addLoop[OF bind_fuel(2)[OF c]])
  have s_addLoop: "addLoop (Suc (Suc n)) left p = addLoop (Suc n) left p"
    if a: "addLoop (Suc n) left p \<noteq> Inl OutOfFuel" for left p
    unfolding addLoop.simps(2)[of "Suc n" left p] addLoop.simps(2)[of n left p]
    using a[unfolded addLoop.simps(2)[of n left p]] b_addLoop_foldPlus b_addLoop_foldMinus
    by (auto simp del: expr_simps split: if_splits)
  have b_mulLoop_foldStar:
    "(case parseUnaryExpr (Suc n) q of Inl e \<Rightarrow> Inl e
      | Inr (right, p1) \<Rightarrow> mulLoop (Suc n) (foldStar left right) p1)
     = (case parseUnaryExpr n q of Inl e \<Rightarrow> Inl e
      | Inr (right, p1) \<Rightarrow> mulLoop n (foldStar left right) p1)"
    if c: "(case parseUnaryExpr n q of Inl e \<Rightarrow> Inl e
      | Inr (right, p1) \<Rightarrow> mulLoop n (foldStar left right) p1) \<noteq> Inl OutOfFuel" for q left
    by (rule bind_same) (rule ih_parseUnaryExpr[OF bind_fuel(1)[OF c]], rule ih_mulLoop[OF bind_fuel(2)[OF c]])
  have b_mulLoop_foldSlash:
    "(case parseUnaryExpr (Suc n) q of Inl e \<Rightarrow> Inl e
      | Inr (right, p1) \<Rightarrow> (case foldSlash left right of Inl e \<Rightarrow> Inl e | Inr folded \<Rightarrow> mulLoop (Suc n) folded p1))
     = (case parseUnaryExpr n q of Inl e \<Rightarrow> Inl e
      | Inr (right, p1) \<Rightarrow> (case foldSlash left right of Inl e \<Rightarrow> Inl e | Inr folded \<Rightarrow> mulLoop n folded p1))"
    if c: "(case parseUnaryExpr n q of Inl e \<Rightarrow> Inl e
      | Inr (right, p1) \<Rightarrow> (case foldSlash left right of Inl e \<Rightarrow> Inl e | Inr folded \<Rightarrow> mulLoop n folded p1)) \<noteq> Inl OutOfFuel" for q left
  proof (rule bind_same)
    show "parseUnaryExpr (Suc n) q = parseUnaryExpr n q" by (rule ih_parseUnaryExpr[OF bind_fuel(1)[OF c]])
  next
    fix right p1 assume x: "parseUnaryExpr n q = Inr (right, p1)"
    note c' = bind_fuel(2)[OF c x]
    show "(case foldSlash left right of Inl e \<Rightarrow> Inl e
           | Inr folded \<Rightarrow> mulLoop (Suc n) folded p1)
          = (case foldSlash left right of Inl e \<Rightarrow> Inl e
             | Inr folded \<Rightarrow> mulLoop n folded p1)"
      by (rule fault_same) (rule ih_mulLoop[OF fault_fuel[OF c']])
  qed
  have b_mulLoop_foldPercent:
    "(case parseUnaryExpr (Suc n) q of Inl e \<Rightarrow> Inl e
      | Inr (right, p1) \<Rightarrow> (case foldPercent left right of Inl e \<Rightarrow> Inl e | Inr folded \<Rightarrow> mulLoop (Suc n) folded p1))
     = (case parseUnaryExpr n q of Inl e \<Rightarrow> Inl e
      | Inr (right, p1) \<Rightarrow> (case foldPercent left right of Inl e \<Rightarrow> Inl e | Inr folded \<Rightarrow> mulLoop n folded p1))"
    if c: "(case parseUnaryExpr n q of Inl e \<Rightarrow> Inl e
      | Inr (right, p1) \<Rightarrow> (case foldPercent left right of Inl e \<Rightarrow> Inl e | Inr folded \<Rightarrow> mulLoop n folded p1)) \<noteq> Inl OutOfFuel" for q left
  proof (rule bind_same)
    show "parseUnaryExpr (Suc n) q = parseUnaryExpr n q" by (rule ih_parseUnaryExpr[OF bind_fuel(1)[OF c]])
  next
    fix right p1 assume x: "parseUnaryExpr n q = Inr (right, p1)"
    note c' = bind_fuel(2)[OF c x]
    show "(case foldPercent left right of Inl e \<Rightarrow> Inl e
           | Inr folded \<Rightarrow> mulLoop (Suc n) folded p1)
          = (case foldPercent left right of Inl e \<Rightarrow> Inl e
             | Inr folded \<Rightarrow> mulLoop n folded p1)"
      by (rule fault_same) (rule ih_mulLoop[OF fault_fuel[OF c']])
  qed
  have s_mulLoop: "mulLoop (Suc (Suc n)) left p = mulLoop (Suc n) left p"
    if a: "mulLoop (Suc n) left p \<noteq> Inl OutOfFuel" for left p
    unfolding mulLoop.simps(2)[of "Suc n" left p] mulLoop.simps(2)[of n left p]
    using a[unfolded mulLoop.simps(2)[of n left p]] b_mulLoop_foldStar b_mulLoop_foldSlash b_mulLoop_foldPercent
    by (auto simp del: expr_simps split: if_splits)
  have b_unary_negate:
    "(case parseUnaryExpr (Suc n) q of Inl e \<Rightarrow> Inl e
      | Inr (val, p1) \<Rightarrow> Inr (negate val, p1))
     = (case parseUnaryExpr n q of Inl e \<Rightarrow> Inl e
        | Inr (val, p1) \<Rightarrow> Inr (negate val, p1))"
    if c: "(case parseUnaryExpr n q of Inl e \<Rightarrow> Inl e
           | Inr (val, p1) \<Rightarrow> Inr (negate val, p1)) \<noteq> Inl OutOfFuel" for q
    by (rule bind_same) (rule ih_parseUnaryExpr[OF bind_fuel(1)[OF c]], rule refl)
  have b_unary_complement:
    "(case parseUnaryExpr (Suc n) q of Inl e \<Rightarrow> Inl e
      | Inr (val, p1) \<Rightarrow> Inr (complement val, p1))
     = (case parseUnaryExpr n q of Inl e \<Rightarrow> Inl e
        | Inr (val, p1) \<Rightarrow> Inr (complement val, p1))"
    if c: "(case parseUnaryExpr n q of Inl e \<Rightarrow> Inl e
           | Inr (val, p1) \<Rightarrow> Inr (complement val, p1)) \<noteq> Inl OutOfFuel" for q
    by (rule bind_same) (rule ih_parseUnaryExpr[OF bind_fuel(1)[OF c]], rule refl)
  have s_parseUnaryExpr: "parseUnaryExpr (Suc (Suc n)) p = parseUnaryExpr (Suc n) p"
    if a: "parseUnaryExpr (Suc n) p \<noteq> Inl OutOfFuel" for p
    unfolding parseUnaryExpr.simps(2)[of "Suc n" p] parseUnaryExpr.simps(2)[of n p]
    using a[unfolded parseUnaryExpr.simps(2)[of n p]] b_unary_negate b_unary_complement
      ih_parseUnaryExpr ih_parsePrimaryExpr
    by (auto simp del: expr_simps split: if_splits)
  have b_paren:
    "(case parseConstExpr (Suc n) q of Inl e \<Rightarrow> Inl e
      | Inr (val, p1) \<Rightarrow> Inr (val, expect RightParen (''Expected '' @ quoted '')'') p1))
     = (case parseConstExpr n q of Inl e \<Rightarrow> Inl e
        | Inr (val, p1) \<Rightarrow> Inr (val, expect RightParen (''Expected '' @ quoted '')'') p1))"
    if c: "(case parseConstExpr n q of Inl e \<Rightarrow> Inl e
           | Inr (val, p1) \<Rightarrow> Inr (val, expect RightParen (''Expected '' @ quoted '')'') p1))
             \<noteq> Inl OutOfFuel"
    for q
    by (rule bind_same) (rule ih_parseConstExpr[OF bind_fuel(1)[OF c]], rule refl)
  have s_parsePrimaryExpr: "parsePrimaryExpr (Suc (Suc n)) p = parsePrimaryExpr (Suc n) p"
    if a: "parsePrimaryExpr (Suc n) p \<noteq> Inl OutOfFuel" for p
  proof (cases "check p LeftParen")
    case True
    with a have "(case parseConstExpr n (advance p) of Inl e \<Rightarrow> Inl e
           | Inr (val, p1) \<Rightarrow> Inr (val, expect RightParen (''Expected '' @ quoted '')'') p1))
             \<noteq> Inl OutOfFuel"
      unfolding parsePrimaryExpr.simps(2)[of n p] by (simp only: if_True simp_thms)
    from b_paren[OF this] True show ?thesis
      unfolding parsePrimaryExpr.simps(2)[of "Suc n" p] parsePrimaryExpr.simps(2)[of n p]
      by (simp only: if_True simp_thms)
  next
    case False
    then show ?thesis
      unfolding parsePrimaryExpr.simps(2)[of "Suc n" p] parsePrimaryExpr.simps(2)[of n p]
      by (simp only: if_False simp_thms)
  qed
  show ?case
    using s_parseConstExpr s_parseOrExpr s_orLoop s_parseXorExpr s_xorLoop s_parseAndExpr s_andLoop s_parseShiftExpr s_shiftLoop s_parseAddExpr s_addLoop s_parseMulExpr s_mulLoop s_parseUnaryExpr s_parsePrimaryExpr
    by blast
qed

lemmas parseConstExpr_step = fuel_stable_step[THEN conjunct1, rule_format]

text \<open>No parser leaves more to read than it found.\<close>

lemma remaining_errorAt: "remaining (errorAt tok msg p) = remaining p"
  by (simp add: errorAt_def remaining_def check_def)

lemma remaining_error: "remaining (error msg p) = remaining p"
  by (simp add: error_def remaining_errorAt)

lemma remaining_warning: "remaining (warning msg p) = remaining p"
  by (simp add: warning_def remaining_def check_def)

lemma remaining_expect: "remaining (expect ty msg p) \<le> remaining p"
  by (simp add: expect_def remaining_errorAt advance_remaining_le)

lemma remaining_match: "remaining (snd (match ty p)) \<le> remaining p"
  by (simp add: match_def advance_remaining_le)

lemma remaining_identifierLoop:
  assumes "\<And>q. remaining (f q) \<le> remaining q"
  shows "remaining (snd (identifierLoop sep f parts p)) \<le> remaining p"
  using assms
proof (induction sep f parts p rule: identifierLoop.induct)
  case (1 sep f parts p)
  show ?case
  proof (cases "check p Identifier")
    case False
    then show ?thesis by (subst identifierLoop.simps) (simp add: "1.prems")
  next
    case True
    show ?thesis
    proof (cases "check (advance p) sep")
      case False
      with True show ?thesis by (subst identifierLoop.simps) (simp add: advance_remaining_le)
    next
      case more: True
      have "remaining (snd (identifierLoop sep f (parts @ [tokText (currentToken p)])
                              (advance (advance p))))
              \<le> remaining (advance (advance p))"
        using True more "1.prems" by (intro "1.IH") simp_all
      also have "\<dots> \<le> remaining (advance p)" by (rule advance_remaining_le)
      also have "\<dots> \<le> remaining p" by (rule advance_remaining_le)
      finally show ?thesis using True more by (subst identifierLoop.simps) simp
    qed
  qed
qed

lemma remaining_resolveConstant:
  "resolveConstant parts isAbsolute p = Inr (v, q) \<Longrightarrow> remaining q = remaining p"
  by (auto simp: resolveConstant_def Let_def remaining_warning
           split: option.splits if_splits ASTNodePtr.splits)

lemma remaining_name:
  assumes "(let (isAbsolute, p1) = match DoubleColon p;
                (parts, p2) = identifierLoop DoubleColon id [] p1
            in resolveConstant parts isAbsolute p2) = Inr (v, q)"
  shows "remaining q \<le> remaining p"
proof -
  let ?p1 = "snd (match DoubleColon p)"
  let ?l = "identifierLoop DoubleColon id [] ?p1"
  from assms have "resolveConstant (fst ?l) (fst (match DoubleColon p)) (snd ?l) = Inr (v, q)"
    by (simp add: Let_def split: prod.splits)
  then have "remaining q = remaining (snd ?l)" by (rule remaining_resolveConstant)
  also have "\<dots> \<le> remaining ?p1" by (rule remaining_identifierLoop) simp
  also have "\<dots> \<le> remaining p" by (rule remaining_match)
  finally show ?thesis .
qed

lemma remaining_parse:
  "(\<forall>p v q. parseConstExpr n p = Inr (v, q) \<longrightarrow> remaining q \<le> remaining p)
   \<and> (\<forall>p v q. parseOrExpr n p = Inr (v, q) \<longrightarrow> remaining q \<le> remaining p)
   \<and> (\<forall>left p v q. orLoop n left p = Inr (v, q) \<longrightarrow> remaining q \<le> remaining p)
   \<and> (\<forall>p v q. parseXorExpr n p = Inr (v, q) \<longrightarrow> remaining q \<le> remaining p)
   \<and> (\<forall>left p v q. xorLoop n left p = Inr (v, q) \<longrightarrow> remaining q \<le> remaining p)
   \<and> (\<forall>p v q. parseAndExpr n p = Inr (v, q) \<longrightarrow> remaining q \<le> remaining p)
   \<and> (\<forall>left p v q. andLoop n left p = Inr (v, q) \<longrightarrow> remaining q \<le> remaining p)
   \<and> (\<forall>p v q. parseShiftExpr n p = Inr (v, q) \<longrightarrow> remaining q \<le> remaining p)
   \<and> (\<forall>left p v q. shiftLoop n left p = Inr (v, q) \<longrightarrow> remaining q \<le> remaining p)
   \<and> (\<forall>p v q. parseAddExpr n p = Inr (v, q) \<longrightarrow> remaining q \<le> remaining p)
   \<and> (\<forall>left p v q. addLoop n left p = Inr (v, q) \<longrightarrow> remaining q \<le> remaining p)
   \<and> (\<forall>p v q. parseMulExpr n p = Inr (v, q) \<longrightarrow> remaining q \<le> remaining p)
   \<and> (\<forall>left p v q. mulLoop n left p = Inr (v, q) \<longrightarrow> remaining q \<le> remaining p)
   \<and> (\<forall>p v q. parseUnaryExpr n p = Inr (v, q) \<longrightarrow> remaining q \<le> remaining p)
   \<and> (\<forall>p v q. parsePrimaryExpr n p = Inr (v, q) \<longrightarrow> remaining q \<le> remaining p)"
proof (induction n)
  case 0
  show ?case by simp
next
  case (Suc n)
  note ih_parseConstExpr = Suc.IH[THEN conjunct1, rule_format]
  note ih_parseOrExpr = Suc.IH[THEN conjunct2, THEN conjunct1, rule_format]
  note ih_orLoop = Suc.IH[THEN conjunct2, THEN conjunct2, THEN conjunct1, rule_format]
  note ih_parseXorExpr = Suc.IH[THEN conjunct2, THEN conjunct2, THEN conjunct2, THEN conjunct1, rule_format]
  note ih_xorLoop = Suc.IH[THEN conjunct2, THEN conjunct2, THEN conjunct2, THEN conjunct2, THEN conjunct1, rule_format]
  note ih_parseAndExpr = Suc.IH[THEN conjunct2, THEN conjunct2, THEN conjunct2, THEN conjunct2, THEN conjunct2, THEN conjunct1, rule_format]
  note ih_andLoop = Suc.IH[THEN conjunct2, THEN conjunct2, THEN conjunct2, THEN conjunct2, THEN conjunct2, THEN conjunct2, THEN conjunct1, rule_format]
  note ih_parseShiftExpr = Suc.IH[THEN conjunct2, THEN conjunct2, THEN conjunct2, THEN conjunct2, THEN conjunct2, THEN conjunct2, THEN conjunct2, THEN conjunct1, rule_format]
  note ih_shiftLoop = Suc.IH[THEN conjunct2, THEN conjunct2, THEN conjunct2, THEN conjunct2, THEN conjunct2, THEN conjunct2, THEN conjunct2, THEN conjunct2, THEN conjunct1, rule_format]
  note ih_parseAddExpr = Suc.IH[THEN conjunct2, THEN conjunct2, THEN conjunct2, THEN conjunct2, THEN conjunct2, THEN conjunct2, THEN conjunct2, THEN conjunct2, THEN conjunct2, THEN conjunct1, rule_format]
  note ih_addLoop = Suc.IH[THEN conjunct2, THEN conjunct2, THEN conjunct2, THEN conjunct2, THEN conjunct2, THEN conjunct2, THEN conjunct2, THEN conjunct2, THEN conjunct2, THEN conjunct2, THEN conjunct1, rule_format]
  note ih_parseMulExpr = Suc.IH[THEN conjunct2, THEN conjunct2, THEN conjunct2, THEN conjunct2, THEN conjunct2, THEN conjunct2, THEN conjunct2, THEN conjunct2, THEN conjunct2, THEN conjunct2, THEN conjunct2, THEN conjunct1, rule_format]
  note ih_mulLoop = Suc.IH[THEN conjunct2, THEN conjunct2, THEN conjunct2, THEN conjunct2, THEN conjunct2, THEN conjunct2, THEN conjunct2, THEN conjunct2, THEN conjunct2, THEN conjunct2, THEN conjunct2, THEN conjunct2, THEN conjunct1, rule_format]
  note ih_parseUnaryExpr = Suc.IH[THEN conjunct2, THEN conjunct2, THEN conjunct2, THEN conjunct2, THEN conjunct2, THEN conjunct2, THEN conjunct2, THEN conjunct2, THEN conjunct2, THEN conjunct2, THEN conjunct2, THEN conjunct2, THEN conjunct2, THEN conjunct1, rule_format]
  note ih_parsePrimaryExpr = Suc.IH[THEN conjunct2, THEN conjunct2, THEN conjunct2, THEN conjunct2, THEN conjunct2, THEN conjunct2, THEN conjunct2, THEN conjunct2, THEN conjunct2, THEN conjunct2, THEN conjunct2, THEN conjunct2, THEN conjunct2, THEN conjunct2, rule_format]
  have s_parseConstExpr: "remaining q \<le> remaining p"
    if a: "parseConstExpr (Suc n) p = Inr (v, q)" for p v q
    using ih_parseOrExpr[OF a[unfolded parseConstExpr.simps(2)[of n p]]] .
  have s_parseOrExpr: "remaining q \<le> remaining p"
    if a: "parseOrExpr (Suc n) p = Inr (v, q)" for p v q
  proof -
    from a[unfolded parseOrExpr.simps(2)[of n p]] obtain left p1
      where g: "parseXorExpr n p = Inr (left, p1)" and h: "orLoop n left p1 = Inr (v, q)"
      by (auto simp del: expr_simps split: sum.splits)
    from ih_parseXorExpr[OF g] ih_orLoop[OF h] show ?thesis by (rule order_trans[rotated])
  qed
  have s_parseXorExpr: "remaining q \<le> remaining p"
    if a: "parseXorExpr (Suc n) p = Inr (v, q)" for p v q
  proof -
    from a[unfolded parseXorExpr.simps(2)[of n p]] obtain left p1
      where g: "parseAndExpr n p = Inr (left, p1)" and h: "xorLoop n left p1 = Inr (v, q)"
      by (auto simp del: expr_simps split: sum.splits)
    from ih_parseAndExpr[OF g] ih_xorLoop[OF h] show ?thesis by (rule order_trans[rotated])
  qed
  have s_parseAndExpr: "remaining q \<le> remaining p"
    if a: "parseAndExpr (Suc n) p = Inr (v, q)" for p v q
  proof -
    from a[unfolded parseAndExpr.simps(2)[of n p]] obtain left p1
      where g: "parseShiftExpr n p = Inr (left, p1)" and h: "andLoop n left p1 = Inr (v, q)"
      by (auto simp del: expr_simps split: sum.splits)
    from ih_parseShiftExpr[OF g] ih_andLoop[OF h] show ?thesis by (rule order_trans[rotated])
  qed
  have s_parseShiftExpr: "remaining q \<le> remaining p"
    if a: "parseShiftExpr (Suc n) p = Inr (v, q)" for p v q
  proof -
    from a[unfolded parseShiftExpr.simps(2)[of n p]] obtain left p1
      where g: "parseAddExpr n p = Inr (left, p1)" and h: "shiftLoop n left p1 = Inr (v, q)"
      by (auto simp del: expr_simps split: sum.splits)
    from ih_parseAddExpr[OF g] ih_shiftLoop[OF h] show ?thesis by (rule order_trans[rotated])
  qed
  have s_parseAddExpr: "remaining q \<le> remaining p"
    if a: "parseAddExpr (Suc n) p = Inr (v, q)" for p v q
  proof -
    from a[unfolded parseAddExpr.simps(2)[of n p]] obtain left p1
      where g: "parseMulExpr n p = Inr (left, p1)" and h: "addLoop n left p1 = Inr (v, q)"
      by (auto simp del: expr_simps split: sum.splits)
    from ih_parseMulExpr[OF g] ih_addLoop[OF h] show ?thesis by (rule order_trans[rotated])
  qed
  have s_parseMulExpr: "remaining q \<le> remaining p"
    if a: "parseMulExpr (Suc n) p = Inr (v, q)" for p v q
  proof -
    from a[unfolded parseMulExpr.simps(2)[of n p]] obtain left p1
      where g: "parseUnaryExpr n p = Inr (left, p1)" and h: "mulLoop n left p1 = Inr (v, q)"
      by (auto simp del: expr_simps split: sum.splits)
    from ih_parseUnaryExpr[OF g] ih_mulLoop[OF h] show ?thesis by (rule order_trans[rotated])
  qed
  have b_orLoop: "remaining q \<le> remaining p"
    if g: "parseXorExpr n (advance p) = Inr (right, p1)" and l: "orLoop n left' p1 = Inr (v, q)"
    for p right p1 left' v q
    using ih_parseXorExpr[OF g] ih_orLoop[OF l] advance_remaining_le[of p] by linarith
  have s_orLoop: "remaining q \<le> remaining p"
    if a: "orLoop (Suc n) left p = Inr (v, q)" for left p v q
    using a[unfolded orLoop.simps(2)[of n left p]] b_orLoop
    by (auto simp del: expr_simps split: if_splits sum.splits)
  have b_xorLoop: "remaining q \<le> remaining p"
    if g: "parseAndExpr n (advance p) = Inr (right, p1)" and l: "xorLoop n left' p1 = Inr (v, q)"
    for p right p1 left' v q
    using ih_parseAndExpr[OF g] ih_xorLoop[OF l] advance_remaining_le[of p] by linarith
  have s_xorLoop: "remaining q \<le> remaining p"
    if a: "xorLoop (Suc n) left p = Inr (v, q)" for left p v q
    using a[unfolded xorLoop.simps(2)[of n left p]] b_xorLoop
    by (auto simp del: expr_simps split: if_splits sum.splits)
  have b_andLoop: "remaining q \<le> remaining p"
    if g: "parseShiftExpr n (advance p) = Inr (right, p1)" and l: "andLoop n left' p1 = Inr (v, q)"
    for p right p1 left' v q
    using ih_parseShiftExpr[OF g] ih_andLoop[OF l] advance_remaining_le[of p] by linarith
  have s_andLoop: "remaining q \<le> remaining p"
    if a: "andLoop (Suc n) left p = Inr (v, q)" for left p v q
    using a[unfolded andLoop.simps(2)[of n left p]] b_andLoop
    by (auto simp del: expr_simps split: if_splits sum.splits)
  have b_shiftLoop: "remaining q \<le> remaining p"
    if g: "parseAddExpr n (advance p) = Inr (right, p1)" and l: "shiftLoop n left' p1 = Inr (v, q)"
    for p right p1 left' v q
    using ih_parseAddExpr[OF g] ih_shiftLoop[OF l] advance_remaining_le[of p] by linarith
  have s_shiftLoop: "remaining q \<le> remaining p"
    if a: "shiftLoop (Suc n) left p = Inr (v, q)" for left p v q
    using a[unfolded shiftLoop.simps(2)[of n left p]] b_shiftLoop
    by (auto simp del: expr_simps split: if_splits sum.splits)
  have b_addLoop: "remaining q \<le> remaining p"
    if g: "parseMulExpr n (advance p) = Inr (right, p1)" and l: "addLoop n left' p1 = Inr (v, q)"
    for p right p1 left' v q
    using ih_parseMulExpr[OF g] ih_addLoop[OF l] advance_remaining_le[of p] by linarith
  have s_addLoop: "remaining q \<le> remaining p"
    if a: "addLoop (Suc n) left p = Inr (v, q)" for left p v q
    using a[unfolded addLoop.simps(2)[of n left p]] b_addLoop
    by (auto simp del: expr_simps split: if_splits sum.splits)
  have b_mulLoop: "remaining q \<le> remaining p"
    if g: "parseUnaryExpr n (advance p) = Inr (right, p1)" and l: "mulLoop n left' p1 = Inr (v, q)"
    for p right p1 left' v q
    using ih_parseUnaryExpr[OF g] ih_mulLoop[OF l] advance_remaining_le[of p] by linarith
  have s_mulLoop: "remaining q \<le> remaining p"
    if a: "mulLoop (Suc n) left p = Inr (v, q)" for left p v q
    using a[unfolded mulLoop.simps(2)[of n left p]] b_mulLoop
    by (auto simp del: expr_simps split: if_splits sum.splits)
  have b_unary: "remaining q \<le> remaining p"
    if g: "parseUnaryExpr n (advance p) = Inr (val, q)" for p val q
    using ih_parseUnaryExpr[OF g] advance_remaining_le[of p] by linarith
  have s_parseUnaryExpr: "remaining q \<le> remaining p"
    if a: "parseUnaryExpr (Suc n) p = Inr (v, q)" for p v q
    using a[unfolded parseUnaryExpr.simps(2)[of n p]] b_unary ih_parsePrimaryExpr
    by (auto simp del: expr_simps split: if_splits sum.splits)
  have s_parsePrimaryExpr: "remaining q \<le> remaining p"
    if a: "parsePrimaryExpr (Suc n) p = Inr (v, q)" for p v q
  proof (cases "check p LeftParen")
    case True
    with a[unfolded parsePrimaryExpr.simps(2)[of n p]] obtain val p1
      where g: "parseConstExpr n (advance p) = Inr (val, p1)"
        and q: "q = expect RightParen (''Expected '' @ quoted '')'') p1"
      by (auto simp del: expr_simps split: sum.splits)
    have "remaining q \<le> remaining p1" unfolding q by (rule remaining_expect)
    with ih_parseConstExpr[OF g] advance_remaining_le[of p] show ?thesis by linarith
  next
    case False
    with a[unfolded parsePrimaryExpr.simps(2)[of n p]] show ?thesis
      using advance_remaining_le[of p] remaining_name[of p v q] remaining_error[of _ p]
      by (auto simp del: expr_simps split: if_splits TokenValue.splits)
  qed
  show ?case
    using s_parseConstExpr s_parseOrExpr s_orLoop s_parseXorExpr s_xorLoop s_parseAndExpr s_andLoop s_parseShiftExpr s_shiftLoop s_parseAddExpr s_addLoop s_parseMulExpr s_mulLoop s_parseUnaryExpr s_parsePrimaryExpr
    by blast
qed

lemmas remaining_parseOrExpr = remaining_parse[THEN conjunct2, THEN conjunct1, rule_format]
lemmas remaining_orLoop = remaining_parse[THEN conjunct2, THEN conjunct2, THEN conjunct1, rule_format]
lemmas remaining_xorLoop = remaining_parse[THEN conjunct2, THEN conjunct2, THEN conjunct2, THEN conjunct2, THEN conjunct1, rule_format]
lemmas remaining_andLoop = remaining_parse[THEN conjunct2, THEN conjunct2, THEN conjunct2, THEN conjunct2, THEN conjunct2, THEN conjunct2, THEN conjunct1, rule_format]
lemmas remaining_shiftLoop = remaining_parse[THEN conjunct2, THEN conjunct2, THEN conjunct2, THEN conjunct2, THEN conjunct2, THEN conjunct2, THEN conjunct2, THEN conjunct2, THEN conjunct1, rule_format]
lemmas remaining_addLoop = remaining_parse[THEN conjunct2, THEN conjunct2, THEN conjunct2, THEN conjunct2, THEN conjunct2, THEN conjunct2, THEN conjunct2, THEN conjunct2, THEN conjunct2, THEN conjunct2, THEN conjunct1, rule_format]
lemmas remaining_mulLoop = remaining_parse[THEN conjunct2, THEN conjunct2, THEN conjunct2, THEN conjunct2, THEN conjunct2, THEN conjunct2, THEN conjunct2, THEN conjunct2, THEN conjunct2, THEN conjunct2, THEN conjunct2, THEN conjunct2, THEN conjunct1, rule_format]
lemmas remaining_parsePrimaryExpr = remaining_parse[THEN conjunct2, THEN conjunct2, THEN conjunct2, THEN conjunct2, THEN conjunct2, THEN conjunct2, THEN conjunct2, THEN conjunct2, THEN conjunct2, THEN conjunct2, THEN conjunct2, THEN conjunct2, THEN conjunct2, THEN conjunct2, rule_format]




section \<open>The recursion bound of the type and declarator parsers\<close>

lemmas type_simps = parseTypeSpec.simps parseSequenceType.simps

lemma parseStringType_step:
  assumes a: "parseStringType n isWide p \<noteq> Inl OutOfFuel"
  shows "parseStringType (Suc n) isWide p = parseStringType n isWide p"
proof (cases "check (advance p) LeftAngle")
  case True
  with a have c: "parseConstExpr n (advance (advance p)) \<noteq> Inl OutOfFuel"
    by (auto simp: parseStringType_def Let_def simp del: expr_simps split: sum.splits)
  show ?thesis
    using True parseConstExpr_step[OF c]
    by (simp add: parseStringType_def Let_def del: expr_simps)
next
  case False
  then show ?thesis by (simp add: parseStringType_def Let_def del: expr_simps)
qed

lemma type_stable_step:
  "(\<forall>p. parseTypeSpec n p \<noteq> Inl OutOfFuel \<longrightarrow> parseTypeSpec (Suc n) p = parseTypeSpec n p)
   \<and> (\<forall>p. parseSequenceType n p \<noteq> Inl OutOfFuel \<longrightarrow>
          parseSequenceType (Suc n) p = parseSequenceType n p)"
proof (induction n)
  case 0
  show ?case by simp
next
  case (Suc n)
  note ih_t = Suc.IH[THEN conjunct1, rule_format]
  note ih_s = Suc.IH[THEN conjunct2, rule_format]
  have s_t: "parseTypeSpec (Suc (Suc n)) p = parseTypeSpec (Suc n) p"
    if a: "parseTypeSpec (Suc n) p \<noteq> Inl OutOfFuel" for p
    unfolding parseTypeSpec.simps(2)[of "Suc n" p] parseTypeSpec.simps(2)[of n p]
    using a[unfolded parseTypeSpec.simps(2)[of n p]] ih_s parseStringType_step
    by (auto simp del: expr_simps type_simps split: if_splits)
  have s_s: "parseSequenceType (Suc (Suc n)) p = parseSequenceType (Suc n) p"
    if a: "parseSequenceType (Suc n) p \<noteq> Inl OutOfFuel" for p
  proof -
    let ?p2 = "expect LeftAngle (''Expected '' @ quoted ''<'' @ '' after '' @ quoted ''sequence'')
                 (expect KwSequence (''Expected '' @ quoted ''sequence'') p)"
    note a' = a[unfolded parseSequenceType.simps(2)[of n p] Let_def]
    have t: "parseTypeSpec (Suc n) ?p2 = parseTypeSpec n ?p2"
      by (rule ih_t[OF bind_fuel(1)[OF a']])
    have c: "parseConstExpr (Suc n) (advance q) = parseConstExpr n (advance q)"
      if x: "parseTypeSpec n ?p2 = Inr (Some elemType, q)" and k: "check q Comma"
      for elemType q
    proof -
      from bind_fuel(2)[OF a' x] k
      have "parseConstExpr n (advance q) \<noteq> Inl OutOfFuel"
        by (auto simp del: expr_simps type_simps split: sum.splits)
      then show ?thesis by (rule parseConstExpr_step)
    qed
    show ?thesis
      unfolding parseSequenceType.simps(2)[of "Suc n" p] parseSequenceType.simps(2)[of n p]
        Let_def t
      using c
      by (auto simp del: expr_simps type_simps split: sum.splits option.splits)
  qed
  show ?case using s_t s_s by blast
qed

lemmas parseTypeSpec_step = type_stable_step[THEN conjunct1, rule_format]

lemma dimensionLoop_step:
  "dimensionLoop n dims p \<noteq> Inl OutOfFuel
   \<Longrightarrow> dimensionLoop (Suc n) dims p = dimensionLoop n dims p"
proof (induction n arbitrary: dims p)
  case 0
  then show ?case by simp
next
  case (Suc n)
  show ?case
  proof (cases "check p LeftBracket")
    case False
    then show ?thesis by (simp del: expr_simps)
  next
    case True
    with Suc.prems have a: "(case parseConstExpr n (advance p) of Inl e \<Rightarrow> Inl e
        | Inr (sizeExpr, p1) \<Rightarrow>
            dimensionLoop n (dims @ [toSize sizeExpr])
              (expect RightBracket (''Expected '' @ quoted '']'') p1)) \<noteq> Inl OutOfFuel"
      by (simp del: expr_simps)
    have "(case parseConstExpr (Suc n) (advance p) of Inl e \<Rightarrow> Inl e
        | Inr (sizeExpr, p1) \<Rightarrow>
            dimensionLoop (Suc n) (dims @ [toSize sizeExpr])
              (expect RightBracket (''Expected '' @ quoted '']'') p1))
        = (case parseConstExpr n (advance p) of Inl e \<Rightarrow> Inl e
        | Inr (sizeExpr, p1) \<Rightarrow>
            dimensionLoop n (dims @ [toSize sizeExpr])
              (expect RightBracket (''Expected '' @ quoted '']'') p1))"
      by (rule bind_same)
         (rule parseConstExpr_step[OF bind_fuel(1)[OF a]], rule Suc.IH[OF bind_fuel(2)[OF a]])
    with True show ?thesis
      unfolding dimensionLoop.simps(2)[of "Suc n" dims p] dimensionLoop.simps(2)[of n dims p]
      by (simp only: if_True)
  qed
qed

lemma parseDeclarator_step:
  assumes a: "parseDeclarator n p \<noteq> Inl OutOfFuel"
  shows "parseDeclarator (Suc n) p = parseDeclarator n p"
proof (cases "check p Identifier")
  case False
  then show ?thesis by (simp add: parseDeclarator_def)
next
  case True
  with a have "dimensionLoop n [] (advance p) \<noteq> Inl OutOfFuel"
    by (auto simp: parseDeclarator_def split: sum.splits)
  from dimensionLoop_step[OF this] True show ?thesis
    by (simp add: parseDeclarator_def del: dimensionLoop.simps)
qed

lemma declaratorLoop_step:
  "declaratorLoop n decls p \<noteq> Inl OutOfFuel
   \<Longrightarrow> declaratorLoop (Suc n) decls p = declaratorLoop n decls p"
proof (induction n arbitrary: decls p)
  case 0
  then show ?case by simp
next
  case (Suc n)
  show ?case
  proof (cases "check p Comma")
    case False
    then show ?thesis by simp
  next
    case True
    with Suc.prems have a: "(case parseDeclarator n (advance p) of Inl e \<Rightarrow> Inl e
        | Inr (decl, p1) \<Rightarrow> declaratorLoop n (decls @ [decl]) p1) \<noteq> Inl OutOfFuel"
      by simp
    have "(case parseDeclarator (Suc n) (advance p) of Inl e \<Rightarrow> Inl e
        | Inr (decl, p1) \<Rightarrow> declaratorLoop (Suc n) (decls @ [decl]) p1)
        = (case parseDeclarator n (advance p) of Inl e \<Rightarrow> Inl e
        | Inr (decl, p1) \<Rightarrow> declaratorLoop n (decls @ [decl]) p1)"
      by (rule bind_same)
         (rule parseDeclarator_step[OF bind_fuel(1)[OF a]], rule Suc.IH[OF bind_fuel(2)[OF a]])
    with True show ?thesis
      unfolding declaratorLoop.simps(2)[of "Suc n" decls p] declaratorLoop.simps(2)[of n decls p]
      by (simp only: if_True)
  qed
qed

lemma parseDeclarators_step:
  assumes a: "parseDeclarators n p \<noteq> Inl OutOfFuel"
  shows "parseDeclarators (Suc n) p = parseDeclarators n p"
  unfolding parseDeclarators_def
  by (rule bind_same)
     (rule parseDeclarator_step[OF bind_fuel(1)[OF a[unfolded parseDeclarators_def]]],
      rule declaratorLoop_step[OF bind_fuel(2)[OF a[unfolded parseDeclarators_def]]])



lemma parseTypeSpec_stable:
  "n \<le> m \<Longrightarrow> parseTypeSpec n p \<noteq> Inl OutOfFuel \<Longrightarrow> parseTypeSpec m p = parseTypeSpec n p"
  using stable_le[of "\<lambda>n. parseTypeSpec n p" n m] parseTypeSpec_step by blast

lemma parseDeclarators_stable:
  "n \<le> m \<Longrightarrow> parseDeclarators n p \<noteq> Inl OutOfFuel
   \<Longrightarrow> parseDeclarators m p = parseDeclarators n p"
  using stable_le[of "\<lambda>n. parseDeclarators n p" n m] parseDeclarators_step by blast

lemma parseConstExpr_stable:
  "n \<le> m \<Longrightarrow> parseConstExpr n p \<noteq> Inl OutOfFuel \<Longrightarrow> parseConstExpr m p = parseConstExpr n p"
  using stable_le[of "\<lambda>n. parseConstExpr n p" n m] parseConstExpr_step by blast



















section \<open>Claims\<close>

text \<open>
  C1, amended. Let the table be what any sequence of the parser's calls
  (\<^verbatim>\<open>enterScope\<close>, \<^verbatim>\<open>leaveScope\<close>, \<^verbatim>\<open>addSymbol\<close>) builds from the empty table. When the
  current scope is the global scope again, as it is once parsing has completed,
  \<^verbatim>\<open>lookupQualified\<close> applied to the fully qualified name of a recorded symbol returns
  that symbol, for every recorded symbol whose name is not empty. The fully qualified
  name of a scope is the simple name for a child of the global scope and the parent's
  fully qualified name, \<^verbatim>\<open>::\<close> and the simple name otherwise;
  \<^verbatim>\<open>buildFullyQualifiedName\<close> puts the current scope's fully qualified name and \<^verbatim>\<open>::\<close>
  in front of a name, and nothing in the global scope; and every recorded symbol
  carries the name so built for the scope that holds it.
\<close>

theorem qualified_lookup_roundtrip:
  assumes ops: "list_all parserOp ops" and st: "st = run ops SymbolTable_new"
  shows "(currentScope st = [] \<longrightarrow>
            (\<forall>x. recorded st x \<and> name x \<noteq> [] \<longrightarrow>
                 lookupQualified st (fullyQualifiedName x) = Some x))
         \<and> (\<forall>p i. validPtr (globalScope st) (p @ [i]) \<longrightarrow>
               scopeFqn (deref (globalScope st) (p @ [i])) =
                 (if p = [] then scopeName (deref (globalScope st) (p @ [i]))
                  else scopeFqn (deref (globalScope st) p) @ ''::''
                       @ scopeName (deref (globalScope st) (p @ [i]))))
         \<and> (\<forall>nm. buildFullyQualifiedName st nm =
               (if currentScope st = [] then nm else scopeFqn (current st) @ ''::'' @ nm))
         \<and> (\<forall>x. recorded st x \<longrightarrow>
               (\<exists>p. validPtr (globalScope st) p
                    \<and> symbols (deref (globalScope st) p) (name x) = Some x
                    \<and> fullyQualifiedName x =
                        (if p = [] then name x
                         else scopeFqn (deref (globalScope st) p) @ ''::'' @ name x)))"
proof -
  have w: "wfTable st" using ops st wfTable_run[OF wfTable_new] by simp
  then have g0: "scopeFqn (globalScope st) = []" and wg: "wfScope (globalScope st)"
    by (simp_all add: wfTable_def)
  show ?thesis
  proof (intro conjI allI impI)
    fix x assume "currentScope st = []" "recorded st x \<and> name x \<noteq> []"
    then show "lookupQualified st (fullyQualifiedName x) = Some x"
      using w lookupQualified_roundtrip by blast
  next
    fix p i assume "validPtr (globalScope st) (p @ [i])"
    then show "scopeFqn (deref (globalScope st) (p @ [i])) =
                 (if p = [] then scopeName (deref (globalScope st) (p @ [i]))
                  else scopeFqn (deref (globalScope st) p) @ ''::''
                       @ scopeName (deref (globalScope st) (p @ [i])))"
      by (rule child_fqn[OF w])
  next
    fix nm show "buildFullyQualifiedName st nm =
               (if currentScope st = [] then nm else scopeFqn (current st) @ ''::'' @ nm)"
      by (rule build_fqn[OF w])
  next
    fix x assume r: "recorded st x"
    from w r obtain p where p: "validPtr (globalScope st) p"
      "symbols (deref (globalScope st) p) (name x) = Some x"
      "fullyQualifiedName x = qualify (scopeFqn (deref (globalScope st) p)) (name x)"
      by (rule recorded_ptr)
    have "fullyQualifiedName x =
            (if p = [] then name x
             else scopeFqn (deref (globalScope st) p) @ ''::'' @ name x)"
      using p(3) scopeFqn_nonempty[OF wg g0 p(1)] by (simp add: qualify_def)
    then show "\<exists>p. validPtr (globalScope st) p
                    \<and> symbols (deref (globalScope st) p) (name x) = Some x
                    \<and> fullyQualifiedName x =
                        (if p = [] then name x
                         else scopeFqn (deref (globalScope st) p) @ ''::'' @ name x)"
      using p(1,2) by blast
  qed
qed

theorem qualified_lookup_roundtrip_witness:
  "list_all parserOp moduleWithConstant
   \<and> currentScope (run moduleWithConstant SymbolTable_new) = []
   \<and> recorded (run moduleWithConstant SymbolTable_new) constantInModule
   \<and> validPtr (globalScope (run moduleWithConstant SymbolTable_new)) [0]
   \<and> lookupQualified (run moduleWithConstant SymbolTable_new) ''M::x'' = Some constantInModule
   \<and> scopeFqn (deref (globalScope (run moduleWithConstant SymbolTable_new)) [0]) = ''M''"
proof -
  let ?st = "run moduleWithConstant SymbolTable_new"
  have t: "?st =
    \<lparr>globalScope =
       Scope [] []
        [''M'' \<mapsto>
         \<lparr>name = ''M'', fullyQualifiedName = ''M'', kind = SK_Module,
            node = None, scope = []\<rparr>]
        [Scope ''M'' ''M'' [''x'' \<mapsto> constantInModule] []],
       currentScope = []\<rparr>"
    by (simp add: moduleWithConstant_def constantInModule_def run_def table_step)
  have ops: "list_all parserOp moduleWithConstant"
    by (simp add: moduleWithConstant_def plainName_def)
  have c: "currentScope ?st = []" by (simp add: t)
  have r: "recorded ?st constantInModule"
    unfolding t recorded_def by (simp add: ran_def) 
  have v: "validPtr (globalScope ?st) ([] @ [0])" by (simp add: t)
  have n: "name constantInModule \<noteq> []" "fullyQualifiedName constantInModule = ''M::x''"
    by (simp_all add: constantInModule_def)
  note th = qualified_lookup_roundtrip[OF ops refl]
  have l: "lookupQualified ?st (fullyQualifiedName constantInModule) = Some constantInModule"
    using th c r n(1) by blast
  have f: "scopeFqn (deref (globalScope ?st) ([] @ [0])) = scopeName (deref (globalScope ?st) ([] @ [0]))"
    using th[THEN conjunct2, THEN conjunct1, rule_format, OF v] by simp
  have "scopeName (deref (globalScope ?st) ([] @ [0])) = ''M''" by (simp add: t)
  with f have "scopeFqn (deref (globalScope ?st) [0]) = ''M''" by simp
  with ops c r v l n(2) show ?thesis by simp
qed

text \<open>
  The claim as it is written, for every recorded symbol, fails on \<^verbatim>\<open>typedef long ;\<close>:
  \<^verbatim>\<open>parseDeclarator\<close> reports the missing identifier and returns a declarator with an
  empty name, \<^verbatim>\<open>parseTypedef\<close> adds a symbol for it, and \<^verbatim>\<open>lookupQualified\<close> of its
  fully qualified name, the empty string, is absent, since \<^verbatim>\<open>lookupScoped\<close> returns
  \<^verbatim>\<open>std::nullopt\<close> for an empty list of parts.
\<close>

theorem unnamed_typedef_counterexample:
  "\<not> isl (parseTypedef 12 (newParser typedefWithoutName))
   \<and> currentScope (symbolTable (snd (projr (parseTypedef 12 (newParser typedefWithoutName))))) = []
   \<and> symbols (globalScope (symbolTable (snd (projr (parseTypedef 12 (newParser typedefWithoutName))))))
        [] = Some \<lparr> name = [], fullyQualifiedName = [], kind = SK_Typedef, node = None, scope = [] \<rparr>
   \<and> lookupQualified (symbolTable (snd (projr (parseTypedef 12 (newParser typedefWithoutName))))) []
        = None"
  apply (unfold parseTypedef_def)
  apply (simp add: typedefWithoutName_def token_step fuel_numeral type_step
              cong: let_weak_cong prod.case_cong_weak)
  apply (simp add: table_step lookupQualified_def parseQualifiedName_def startsWithColons_def
              lookupScoped_def)
  done

text \<open>
  C2. \<^verbatim>\<open>sanitizeIdentifier\<close> appends an underscore to \<^verbatim>\<open>class\<close>, but \<^verbatim>\<open>generateStruct\<close>
  does not call it: for \<^verbatim>\<open>struct S { long class; };\<close> the parser accepts the member
  without a diagnostic (\<^verbatim>\<open>class\<close> is no IDL keyword) and the emitted header holds the
  member as \<^verbatim>\<open>int32_t class;\<close> and compares \<^verbatim>\<open>class == other.class\<close>, the reserved
  word without an underscore at each of its three occurrences.
\<close>

theorem reserved_word_member_not_sanitized:
  "sanitizeIdentifier ''class'' = ''class_''
   \<and> map_option members (fst (projr (parseStruct 12 (newParser structMemberClass))))
       = Some [\<lparr> memberType = BasicTypeNode BT_Long, memberName = ''class'' \<rparr>]
   \<and> errors (snd (projr (parseStruct 12 (newParser structMemberClass)))) = []
   \<and> header (generateStruct (the (fst (projr (parseStruct 12 (newParser structMemberClass)))))
                (newGenerator defaultConfig))
       = joinLines
          [''/**'', '' * @brief IDL struct S'', '' */'', ''struct S {'', ''    int32_t class;'', [],
           ''    bool operator==(const S& other) const {'',
           ''        return class == other.class;'',
           ''    }'', [], ''    bool operator!=(const S& other) const {'',
           ''        return !(*this == other);'', ''    }'', ''};'', []]"
  apply (simp add: struct_step structMemberClass_def token_step fuel_numeral type_step
              cong: let_weak_cong prod.case_cong_weak)
  apply (simp add: table_step)
  apply (simp add: generator_step joinLines_def sanitizeIdentifier_def reserved_def
              cong: let_weak_cong)
  done

text \<open>
  C3. The claim holds where both operands are \<^verbatim>\<open>int64_t\<close>, and for \<^verbatim>\<open>%\<close>, which
  \<^verbatim>\<open>parseMulExpr\<close> applies to \<^verbatim>\<open>int64_t\<close> operands only: a zero on the right leaves the
  folded value as it was. The branch of \<^verbatim>\<open>/\<close> for two \<^verbatim>\<open>double\<close> operands has no such
  test. For \<^verbatim>\<open>1.0 / 0.0\<close> the operands fold to \<open>1.0\<close> and \<open>0.0\<close>, the folded value is
  replaced by positive infinity, and nothing is reported; \<^verbatim>\<open>7 / 0\<close> beside it folds to
  the unchanged \<open>7\<close>.
\<close>

theorem float_division_by_zero_not_suppressed:
  "parseConstExpr 20 (newParser floatByZero)
     = Inr (CV_double (Infinity False), advance (advance (advance (newParser floatByZero))))
   \<and> fst (projr (parseUnaryExpr 20 (newParser floatByZero))) = CV_double (Finite False 1)
   \<and> fst (projr (parseUnaryExpr 20 (advance (advance (newParser floatByZero)))))
       = CV_double (Finite False 0)
   \<and> errors (advance (advance (advance (newParser floatByZero)))) = []
   \<and> parseConstExpr 20 (newParser intByZero)
       = Inr (CV_int64 7, advance (advance (advance (newParser intByZero))))"
  by (simp add: floatByZero_def intByZero_def token_step fuel_numeral foldSlash_def)

text \<open>What a zero on the right does in each branch of \<^verbatim>\<open>/\<close> and \<^verbatim>\<open>%\<close>.\<close>

lemma division_by_zero_folds:
  "foldSlash left (CV_int64 0) = Inr left
   \<and> foldPercent left (CV_int64 0) = Inr left
   \<and> foldPercent left (CV_double r) = Inr left
   \<and> (x \<noteq> 0 \<longrightarrow>
        foldSlash (CV_double (Finite s x)) (CV_double (Finite t 0))
          = Inr (CV_double (Infinity (s \<noteq> t))))
   \<and> foldSlash (CV_double (Finite s 0)) (CV_double (Finite t 0)) = Inr (CV_double NaN)"
  by (auto simp: foldSlash_def foldPercent_def split: ConstValue.splits)

text \<open>
  C4, amended. A qualified name in a constant expression that the symbol table
  resolves to an \<^verbatim>\<open>EnumValue\<close> symbol folds to the signed 64-bit integer zero, whatever
  the position of the enumerator in its enum, and nothing is reported: for
  \<^verbatim>\<open>resolveConstant\<close>, the tail of \<^verbatim>\<open>parsePrimaryExpr\<close> after the name has been read,
  and for \<^verbatim>\<open>parsePrimaryExpr\<close> itself on a token that starts a name.
\<close>

theorem enum_value_reference_folds_to_zero:
  "(lookupScoped (symbolTable p) parts isAbsolute = Some smb \<longrightarrow> kind smb = SK_EnumValue \<longrightarrow>
      resolveConstant parts isAbsolute p = Inr (CV_int64 0, p))
   \<and> ((check p Identifier \<or> check p DoubleColon) \<longrightarrow>
        lookupScoped
          (symbolTable (snd (identifierLoop DoubleColon id [] (snd (match DoubleColon p)))))
          (fst (identifierLoop DoubleColon id [] (snd (match DoubleColon p))))
          (fst (match DoubleColon p)) = Some smb \<longrightarrow>
        kind smb = SK_EnumValue \<longrightarrow>
        parsePrimaryExpr (Suc n) p =
          Inr (CV_int64 0, snd (identifierLoop DoubleColon id [] (snd (match DoubleColon p)))))"
proof (intro conjI impI)
  assume "lookupScoped (symbolTable p) parts isAbsolute = Some smb" "kind smb = SK_EnumValue"
  then show "resolveConstant parts isAbsolute p = Inr (CV_int64 0, p)"
    by (simp add: resolveConstant_def)
next
  let ?m = "match DoubleColon p"
  let ?l = "identifierLoop DoubleColon id [] (snd ?m)"
  assume c: "check p Identifier \<or> check p DoubleColon"
    and l: "lookupScoped (symbolTable (snd ?l)) (fst ?l) (fst ?m) = Some smb"
    and k: "kind smb = SK_EnumValue"
  have r: "resolveConstant (fst ?l) (fst ?m) (snd ?l) = Inr (CV_int64 0, snd ?l)"
    using l k by (simp add: resolveConstant_def)
  from c have "parsePrimaryExpr (Suc n) p = resolveConstant (fst ?l) (fst ?m) (snd ?l)"
    by (auto simp: check_def Let_def split: prod.splits)
  then show "parsePrimaryExpr (Suc n) p = Inr (CV_int64 0, snd ?l)" using r by simp
qed

theorem enum_value_reference_folds_to_zero_witness:
  "lookupScoped (symbolTable (snd (parseEnum (newParser enumThenConst)))) [''GREEN''] False
     = Some \<lparr> name = ''GREEN'', fullyQualifiedName = ''GREEN'', kind = SK_EnumValue,
              node = None, scope = [] \<rparr>
   \<and> resolveConstant [''GREEN''] False (snd (parseEnum (newParser enumThenConst)))
       = Inr (CV_int64 0, snd (parseEnum (newParser enumThenConst)))"
proof -
  let ?p = "snd (parseEnum (newParser enumThenConst))"
  let ?x = "\<lparr> name = ''GREEN'', fullyQualifiedName = ''GREEN'', kind = SK_EnumValue,
              node = None, scope = [] \<rparr>"
  have l: "lookupScoped (symbolTable ?p) [''GREEN''] False = Some ?x"
    apply (unfold parseEnum_def)
    apply (simp add: enumThenConst_def token_step cong: let_weak_cong prod.case_cong_weak)
    apply (simp add: table_step lookup_step)
    done
  have k: "kind ?x = SK_EnumValue" by simp
  show ?thesis
    using l k enum_value_reference_folds_to_zero[of ?p "[''GREEN'']" False ?x] by blast
qed

text \<open>
  The claim as it is written, the ordinal as the folded value, fails on
  \<^verbatim>\<open>enum Color { RED, GREEN }; const long C = GREEN;\<close>: \<^verbatim>\<open>GREEN\<close> is at position 1 of
  the enumerators and the constant folds to 0.
\<close>

theorem enum_value_ordinal_counterexample:
  "position (enumerators (the (fst (parseEnum (newParser enumThenConst))))) ''GREEN'' = Some 1
   \<and> map_option constValue
         (fst (projr (parseConst 12 (snd (parseEnum (newParser enumThenConst))))))
       = Some (CV_int64 0)"
  apply (unfold parseEnum_def)
  apply (simp add: enumThenConst_def token_step cong: let_weak_cong prod.case_cong_weak)
  apply (simp add: table_step)
  apply (unfold parseConst_def)
  apply (simp add: token_step fuel_numeral type_step lookup_step
              cong: let_weak_cong prod.case_cong_weak)
  apply (simp add: table_step position_def)
  done

text \<open>
  C5. Adding a symbol whose simple name already exists in the current scope returns
  false and leaves the table, and so that scope's symbol map, unchanged: the symbol
  inserted first stays. Adding a symbol under a name that is not yet in the current
  scope returns true, stores the new symbol under that name and leaves every other
  name of the scope as it was. The first conjunct is \<^verbatim>\<open>Scope::addSymbol\<close>, the other two
  \<^verbatim>\<open>SymbolTable::addSymbol\<close> on any table reached from the empty one.
\<close>

theorem addSymbol_duplicate_keeps_first:
  assumes st: "st = run ops SymbolTable_new"
  shows "Scope_addSymbol smb s =
           (if Scope_lookupLocal s (name smb) \<noteq> None then (False, s)
            else (True, Scope (scopeName s) (scopeFqn s)
                          ((symbols s)(name smb \<mapsto> smb)) (children s)))
         \<and> (existsInCurrentScope st nm \<longrightarrow> addSymbol nm k nd st = (False, st))
         \<and> (\<not> existsInCurrentScope st nm \<longrightarrow>
              fst (addSymbol nm k nd st)
              \<and> Scope_lookupLocal (current (snd (addSymbol nm k nd st))) nm =
                  Some \<lparr> name = nm, fullyQualifiedName = buildFullyQualifiedName st nm,
                         kind = k, node = nd, scope = getCurrentScopeName st \<rparr>
              \<and> (\<forall>other. other \<noteq> nm \<longrightarrow>
                    Scope_lookupLocal (current (snd (addSymbol nm k nd st))) other =
                    Scope_lookupLocal (current st) other))"
proof (intro conjI impI)
  show "Scope_addSymbol smb s =
           (if Scope_lookupLocal s (name smb) \<noteq> None then (False, s)
            else (True, Scope (scopeName s) (scopeFqn s)
                          ((symbols s)(name smb \<mapsto> smb)) (children s)))"
    by (simp add: Scope_addSymbol_def Scope_lookupLocal_def split: option.splits)
next
  assume "existsInCurrentScope st nm"
  then show "addSymbol nm k nd st = (False, st)"
    by (auto simp: existsInCurrentScope_def Scope_lookupLocal_def addSymbol_def
                   Scope_addSymbol_def current_def assign_deref)
next
  have v: "validPtr (globalScope st) (currentScope st)" using st validPtr_reachable by simp
  assume fresh: "\<not> existsInCurrentScope st nm"
  then have none: "symbols (current st) nm = None"
    by (simp add: existsInCurrentScope_def Scope_lookupLocal_def)
  let ?x = "\<lparr> name = nm, fullyQualifiedName = buildFullyQualifiedName st nm,
              kind = k, node = nd, scope = scopeFqn (current st) \<rparr>"
  let ?s' = "Scope (scopeName (current st)) (scopeFqn (current st))
               ((symbols (current st))(nm \<mapsto> ?x)) (children (current st))"
  have res: "addSymbol nm k nd st = (True, st\<lparr> globalScope := assign (globalScope st) (currentScope st) ?s' \<rparr>)"
    using none by (simp add: addSymbol_def Scope_addSymbol_def)
  have cur: "current (snd (addSymbol nm k nd st)) = ?s'"
    using res deref_assign[OF v] by (simp add: current_def)
  show "fst (addSymbol nm k nd st)" using res by simp
  show "Scope_lookupLocal (current (snd (addSymbol nm k nd st))) nm =
          Some \<lparr> name = nm, fullyQualifiedName = buildFullyQualifiedName st nm,
                 kind = k, node = nd, scope = getCurrentScopeName st \<rparr>"
    using cur by (simp add: Scope_lookupLocal_def getCurrentScopeName_def)
  show "\<forall>other. other \<noteq> nm \<longrightarrow>
          Scope_lookupLocal (current (snd (addSymbol nm k nd st))) other =
          Scope_lookupLocal (current st) other"
    using cur by (simp add: Scope_lookupLocal_def)
qed

theorem addSymbol_duplicate_keeps_first_witness:
  "existsInCurrentScope (run [AddSymbol ''A'' SK_Struct None] SymbolTable_new) ''A''
   \<and> addSymbol ''A'' SK_Module None (run [AddSymbol ''A'' SK_Struct None] SymbolTable_new)
       = (False, run [AddSymbol ''A'' SK_Struct None] SymbolTable_new)
   \<and> \<not> existsInCurrentScope (run [AddSymbol ''A'' SK_Struct None] SymbolTable_new) ''B''
   \<and> fst (addSymbol ''B'' SK_Module None (run [AddSymbol ''A'' SK_Struct None] SymbolTable_new))"
proof -
  let ?st = "run [AddSymbol ''A'' SK_Struct None] SymbolTable_new"
  have a: "existsInCurrentScope ?st ''A''"
    by (simp add: run_def addSymbol_def Scope_addSymbol_def SymbolTable_new_def Scope_new_def
                  current_def existsInCurrentScope_def Scope_lookupLocal_def)
  have b: "\<not> existsInCurrentScope ?st ''B''"
    by (simp add: run_def addSymbol_def Scope_addSymbol_def SymbolTable_new_def Scope_new_def
                  current_def existsInCurrentScope_def Scope_lookupLocal_def)
  show ?thesis
    using a b
      addSymbol_duplicate_keeps_first[OF refl, where ops = "[AddSymbol ''A'' SK_Struct None]"
          and nm = "''A''" and k = SK_Module and nd = None]
      addSymbol_duplicate_keeps_first[OF refl, where ops = "[AddSymbol ''A'' SK_Struct None]"
          and nm = "''B''" and k = SK_Module and nd = None]
    by blast
qed

text \<open>
  C6. On every table the parser can build (each \<^verbatim>\<open>enterScope(name)\<close> directly after
  \<^verbatim>\<open>addSymbol(name, ...)\<close>, from the empty table) and for a non-empty list of parts,
  \<^verbatim>\<open>SymbolTable::lookupScoped\<close> returns what the resolution algorithm of the
  specification returns (\<open>lookupScoped_spec\<close>): absolute, from the global scope through
  \<open>parts[0..n-2]\<close> as child scopes, then the last part locally; relative, from the
  current scope towards the global scope to the first scope that has a child scope
  named \<open>parts[0]\<close> or, with a single part, a local symbol named \<open>parts[0]\<close>, down
  through \<open>parts[1..n-2]\<close>, then the last part locally; absent as soon as a step fails.
  The equality holds for every current scope the calls lead to and both values of
  \<open>isAbsolute\<close>.
\<close>

theorem lookupScoped_as_specified:
  assumes ne: "parts \<noteq> []" and ops: "entersDeclared ops" and st: "st = run ops SymbolTable_new"
  shows "lookupScoped st parts isAbsolute = lookupScoped_spec st parts isAbsolute"
proof -
  let ?g = "globalScope st" and ?n = "length parts"
  have hd0: "hd parts = parts ! 0" using ne by (rule hd_conv_nth)
  have d: "declaredTable st" unfolding st using declaredTable_new ops by (rule declaredTable_run)
  then have dg: "childrenDeclared ?g" and vc: "validPtr ?g (currentScope st)"
    by (simp_all add: declaredTable_def)
  show ?thesis
  proof (cases isAbsolute)
    case True
    then have "lookupScoped st parts isAbsolute = navigate ?g [] 0 parts"
      using ne by (simp add: lookupScoped_def)
    also have "\<dots> = lookupScoped_spec st parts isAbsolute"
      using True navigate_spec(1)[OF ne, of ?g "[]"]
      by (simp add: lookupScoped_spec_def Let_def)
    finally show ?thesis .
  next
    case rel: False
    show ?thesis
    proof (cases "?n = 1")
      case True
      have same: "anchorFor ?g parts a = (symbols (deref ?g a) (parts ! 0) \<noteq> None)"
        if a: "a \<in> set (towardsGlobal (currentScope st))" for a
      proof -
        have "childrenDeclared (deref ?g a)"
          using dg validPtr_towardsGlobal[OF vc a] by (rule childrenDeclared_deref)
        then show ?thesis
          using True childNamed_declared[of "deref ?g a" "parts ! 0"]
          by (auto simp: anchorFor_def)
      qed
      have f: "List.find (anchorFor ?g parts) (towardsGlobal (currentScope st))
                 = List.find (\<lambda>a. symbols (deref ?g a) (parts ! 0) \<noteq> None)
                     (towardsGlobal (currentScope st))"
        using same by (rule find_same)
      have "lookupScoped st parts isAbsolute = Scope_lookup ?g (currentScope st) (parts ! 0)"
        using ne rel True hd0 by (simp add: lookupScoped_def)
      also have "\<dots> = lookupScoped_spec st parts isAbsolute"
        using rel True
        by (simp add: Scope_lookup_find[of ?g "currentScope st" "parts ! 0"] f
                      lookupScoped_spec_def Let_def cong: option.case_cong)
      finally show ?thesis .
    next
      case False
      with ne have n2: "?n > 1" by (cases parts) auto
      let ?found = "List.find (\<lambda>a. childNamed (deref ?g a) (parts ! 0) \<noteq> None)
                      (towardsGlobal (currentScope st))"
      have "anchorFor ?g parts = (\<lambda>a. childNamed (deref ?g a) (parts ! 0) \<noteq> None)"
        using False by (intro ext) (simp add: anchorFor_def)
      then have f: "List.find (anchorFor ?g parts) (towardsGlobal (currentScope st)) = ?found"
        by (simp only:)
      have wu: "walkUp ?g (currentScope st) parts =
                  (case ?found of None \<Rightarrow> Exhausted
                   | Some a \<Rightarrow> Break (a @ [the (childNamed (deref ?g a) (parts ! 0))]))"
        unfolding walkUp_find[OF False] hd0 ..
      show ?thesis
      proof (cases ?found)
        case None
        then have "lookupScoped st parts isAbsolute = None"
          using ne rel False n2 wu by (simp add: lookupScoped_def)
        moreover have "lookupScoped_spec st parts isAbsolute = None"
          using rel False None by (simp add: lookupScoped_spec_def Let_def f)
        ultimately show ?thesis by simp
      next
        case (Some a)
        then have "childNamed (deref ?g a) (parts ! 0) \<noteq> None"
          by (auto simp: find_Some_iff)
        then obtain i where i: "childNamed (deref ?g a) (parts ! 0) = Some i" by blast
        have "lookupScoped st parts isAbsolute = navigate ?g (a @ [i]) 1 parts"
          using ne rel False wu Some i by (simp add: lookupScoped_def)
        also have "\<dots> = lookupScoped_spec st parts isAbsolute"
          using rel False Some i navigate_spec(2)[OF ne, of ?g "a @ [i]"]
          by (simp add: lookupScoped_spec_def Let_def f)
        finally show ?thesis .
      qed
    qed
  qed
qed

theorem lookupScoped_as_specified_witness:
  "[''M'', ''x''] \<noteq> []
   \<and> entersDeclared moduleWithConstant
   \<and> lookupScoped (run moduleWithConstant SymbolTable_new) [''M'', ''x''] False
       = Some constantInModule
   \<and> lookupScoped_spec (run moduleWithConstant SymbolTable_new) [''M'', ''x''] False
       = Some constantInModule
   \<and> lookupScoped (enterScope ''M'' (run moduleWithConstant SymbolTable_new)) [''x''] False
       = lookupScoped_spec (enterScope ''M'' (run moduleWithConstant SymbolTable_new))
           [''x''] False"
proof -
  let ?st = "run moduleWithConstant SymbolTable_new"
  have e: "entersDeclared moduleWithConstant"
    by (simp add: moduleWithConstant_def entersDeclared_def)
  have e': "entersDeclared (moduleWithConstant @ [AddSymbol ''M'' SK_Module None, EnterScope ''M''])"
    by (simp add: moduleWithConstant_def entersDeclared_def)
  have t: "?st =
    \<lparr>globalScope =
       Scope [] []
        [''M'' \<mapsto>
         \<lparr>name = ''M'', fullyQualifiedName = ''M'', kind = SK_Module,
            node = None, scope = []\<rparr>]
        [Scope ''M'' ''M'' [''x'' \<mapsto> constantInModule] []],
       currentScope = []\<rparr>"
    by (simp add: moduleWithConstant_def constantInModule_def run_def table_step)
  have r: "run (moduleWithConstant @ [AddSymbol ''M'' SK_Module None, EnterScope ''M''])
             SymbolTable_new = enterScope ''M'' ?st"
    unfolding run_def fold_append comp_def
    by (simp add: t[unfolded run_def] addSymbol_def Scope_addSymbol_def current_def)
  have l: "lookupScoped ?st [''M'', ''x''] False = Some constantInModule"
    unfolding t
    by (simp add: lookupScoped_def walkUp.simps Scope_getChildScope_def navigate_def
                  Scope_lookupLocal_def)
  from lookupScoped_as_specified[OF _ e refl, of "[''M'', ''x'']" False] l
  have s: "lookupScoped_spec ?st [''M'', ''x''] False = Some constantInModule" by simp
  from lookupScoped_as_specified[OF _ e' refl, of "[''x'']" False]
  have "lookupScoped (enterScope ''M'' ?st) [''x''] False
          = lookupScoped_spec (enterScope ''M'' ?st) [''x''] False"
    unfolding r by simp
  with e l s show ?thesis by simp
qed

text \<open>
  The restriction to the parser's tables is needed for a single relative part. After
  \<^verbatim>\<open>addSymbol("A")\<close>, \<^verbatim>\<open>enterScope("M")\<close>, \<^verbatim>\<open>enterScope("A")\<close>, \<^verbatim>\<open>leaveScope()\<close>, calls
  the parser never makes in this order, the current scope \<^verbatim>\<open>M\<close> has a child scope
  \<^verbatim>\<open>A\<close> and no symbol \<^verbatim>\<open>A\<close>: \<^verbatim>\<open>lookupScoped\<close> goes on to the global scope and returns
  its symbol \<^verbatim>\<open>A\<close>, the algorithm of the specification stops at \<^verbatim>\<open>M\<close> and finds
  nothing.
\<close>

lemma lookupScoped_undeclared_scope:
  "lookupScoped
     (run [AddSymbol ''A'' SK_Constant None, EnterScope ''M'', EnterScope ''A'', LeaveScope]
        SymbolTable_new) [''A''] False
     = Some \<lparr> name = ''A'', fullyQualifiedName = ''A'', kind = SK_Constant, node = None,
              scope = [] \<rparr>
   \<and> lookupScoped_spec
       (run [AddSymbol ''A'' SK_Constant None, EnterScope ''M'', EnterScope ''A'', LeaveScope]
          SymbolTable_new) [''A''] False
     = None"
  by (simp add: run_def table_step lookupScoped_def lookupScoped_spec_def Scope_lookup_here
                Scope_lookup_global Scope_lookup_parent[of _ "[]", simplified]
                towardsGlobal_def anchorFor_def childNamed_def)



text \<open>
  C8. For every declarator of a typedef, with any number of array dimensions, the
  generated alias is \<^verbatim>\<open>using\<close>, the declarator's name, \<^verbatim>\<open>=\<close> and the mapped type inside
  nested \<^verbatim>\<open>std::array\<close> templates, the first dimension outermost and the last
  innermost (\<open>nestedArray\<close>); \<^verbatim>\<open>generateTypedef\<close> appends one such line for each declarator,
  in their order, and an empty line, and changes nothing else of the generator; an
  array type is mapped with the same nesting. So \<^verbatim>\<open>typedef T X[a][b];\<close> emits
  \<^verbatim>\<open>using X = std::array<std::array<mapped(T), b>, a>;\<close> and \<^verbatim>\<open>typedef octet UUID[16];\<close>
  emits \<^verbatim>\<open>using UUID = std::array<uint8_t, 16>;\<close>.
\<close>

theorem typedef_array_nesting:
  "wrapArrays elemType dims = nestedArray elemType dims
   \<and> mapType (ArrayTypeNode ty dims) = nestedArray (mapType ty) dims
   \<and> typedefLine baseType decl =
       ''using '' @ declName decl @ '' = '' @ nestedArray baseType (arrayDimensions decl) @ '';''
   \<and> header (generateTypedef nd g) =
       header g
       @ concat (map (\<lambda>decl. getIndent g @ ''using '' @ declName decl @ '' = ''
                              @ nestedArray (mapType (originalType nd)) (arrayDimensions decl)
                              @ '';'' @ [CHR 0x0A])
                    (declarators nd))
       @ [CHR 0x0A]
   \<and> config (generateTypedef nd g) = config g
   \<and> indentLevel (generateTypedef nd g) = indentLevel g
   \<and> nestedArray elemType [a, b] =
       ''std::array<std::array<'' @ elemType @ '', '' @ to_string b @ ''>, '' @ to_string a
       @ ''>''
   \<and> header (generateTypedef
                \<lparr> typedefName = ''UUID'', typedefFqn = ''UUID'',
                  originalType = BasicTypeNode BT_Octet,
                  declarators = [\<lparr> declName = ''UUID'', arrayDimensions = [16] \<rparr>] \<rparr>
                (newGenerator defaultConfig)) =
       ''using UUID = std::array<uint8_t, 16>;'' @ [CHR 0x0A, CHR 0x0A]"
proof -
  have w: "wrapArrays t ds = nestedArray t ds" for t ds
    by (induction ds) (simp_all add: wrapArrays_def wrapArray_def)
  have l: "typedefLine t d =
             ''using '' @ declName d @ '' = '' @ nestedArray t (arrayDimensions d) @ '';''"
    for t d
    by (cases "arrayDimensions d") (simp_all add: typedefLine_def w)
  have f: "header (fold (\<lambda>decl. writeHeaderLine (typedefLine t decl)) ds h) =
             header h @ concat (map (\<lambda>decl. getIndent h @ typedefLine t decl @ [CHR 0x0A]) ds)
           \<and> config (fold (\<lambda>decl. writeHeaderLine (typedefLine t decl)) ds h) = config h
           \<and> indentLevel (fold (\<lambda>decl. writeHeaderLine (typedefLine t decl)) ds h)
               = indentLevel h"
    for t ds h
  proof (induction ds arbitrary: h)
    case Nil
    show ?case by simp
  next
    case (Cons d ds)
    have ne: "typedefLine t d \<noteq> []" by (simp add: l)
    have i: "getIndent (writeHeaderLine (typedefLine t d) h) = getIndent h"
      by (simp add: getIndent_def writeHeaderLine_def)
    show ?case
      using Cons[of "writeHeaderLine (typedefLine t d) h"] ne
      by (simp add: i) (simp add: writeHeaderLine_def)
  qed
  have g: "header (generateTypedef nd g) =
       header g
       @ concat (map (\<lambda>decl. getIndent g @ ''using '' @ declName decl @ '' = ''
                              @ nestedArray (mapType (originalType nd)) (arrayDimensions decl)
                              @ '';'' @ [CHR 0x0A])
                    (declarators nd))
       @ [CHR 0x0A]
     \<and> config (generateTypedef nd g) = config g
     \<and> indentLevel (generateTypedef nd g) = indentLevel g"
    using f[of "mapType (originalType nd)" "declarators nd" g]
    by (simp add: generateTypedef_def Let_def writeHeaderLine_def l)
  have u: "header (generateTypedef
                \<lparr> typedefName = ''UUID'', typedefFqn = ''UUID'',
                  originalType = BasicTypeNode BT_Octet,
                  declarators = [\<lparr> declName = ''UUID'', arrayDimensions = [16] \<rparr>] \<rparr>
                (newGenerator defaultConfig)) =
       ''using UUID = std::array<uint8_t, 16>;'' @ [CHR 0x0A, CHR 0x0A]"
    by (simp add: generator_step to_string_digit to_string_more digitChar_def)
  show ?thesis using w l g u by simp
qed

theorem typedef_array_nesting_witness:
  "header (generateTypedef
             \<lparr> typedefName = ''M'', typedefFqn = ''M'', originalType = BasicTypeNode BT_Long,
               declarators = [\<lparr> declName = ''M'', arrayDimensions = [2, 3, 4] \<rparr>,
                              \<lparr> declName = ''N'', arrayDimensions = [] \<rparr>] \<rparr>
             (newGenerator defaultConfig))
     = joinLines
         [''using M = std::array<std::array<std::array<int32_t, 4>, 3>, 2>;'',
          ''using N = int32_t;'', []]"
  using typedef_array_nesting[where g = "newGenerator defaultConfig"
          and nd = "\<lparr> typedefName = ''M'', typedefFqn = ''M'',
                      originalType = BasicTypeNode BT_Long,
                      declarators = [\<lparr> declName = ''M'', arrayDimensions = [2, 3, 4] \<rparr>,
                                     \<lparr> declName = ''N'', arrayDimensions = [] \<rparr>] \<rparr>"]
  by (simp add: mapBasicType_def to_string_digit digitChar_def joinLines_def getIndent_def
                newGenerator_def)



text \<open>
  C10. The operators \<^verbatim>\<open>+\<close>, \<^verbatim>\<open>-\<close>, \<^verbatim>\<open>*\<close> and \<^verbatim>\<open>/\<close> combine two \<^verbatim>\<open>int64_t\<close> operands
  or two \<^verbatim>\<open>double\<close> operands only. For any other pair of operands (an integer and a
  \<^verbatim>\<open>double\<close>, or a string, a boolean or an unsigned value on either side) the folded
  value stays the left operand, and the loops of \<^verbatim>\<open>parseAddExpr\<close> and \<^verbatim>\<open>parseMulExpr\<close>
  go on with the left operand from the state after the right one: operator and right
  operand are dropped, and nothing is reported.
\<close>

theorem mixed_operands_keep_left:
  "(\<not> sameArithmeticAlternative left right \<longrightarrow>
      foldPlus left right = left \<and> foldMinus left right = left
      \<and> foldStar left right = left \<and> foldSlash left right = Inr left)
   \<and> (\<not> sameArithmeticAlternative left right \<longrightarrow> check p Plus \<longrightarrow>
        parseMulExpr n (advance p) = Inr (right, p1) \<longrightarrow>
        addLoop (Suc n) left p = addLoop n left p1)
   \<and> (\<not> sameArithmeticAlternative left right \<longrightarrow> check p Minus \<longrightarrow>
        parseMulExpr n (advance p) = Inr (right, p1) \<longrightarrow>
        addLoop (Suc n) left p = addLoop n left p1)
   \<and> (\<not> sameArithmeticAlternative left right \<longrightarrow> check p Star \<longrightarrow>
        parseUnaryExpr n (advance p) = Inr (right, p1) \<longrightarrow>
        mulLoop (Suc n) left p = mulLoop n left p1)
   \<and> (\<not> sameArithmeticAlternative left right \<longrightarrow> check p Slash \<longrightarrow>
        parseUnaryExpr n (advance p) = Inr (right, p1) \<longrightarrow>
        mulLoop (Suc n) left p = mulLoop n left p1)"
proof -
  have f: "\<not> sameArithmeticAlternative left right \<Longrightarrow>
      foldPlus left right = left \<and> foldMinus left right = left
      \<and> foldStar left right = left \<and> foldSlash left right = Inr left"
    by (auto simp: sameArithmeticAlternative_def foldPlus_def foldMinus_def foldStar_def
                   foldSlash_def split: ConstValue.splits)
  show ?thesis using f by (auto simp: check_def)
qed

theorem mixed_operands_keep_left_witness:
  "\<not> sameArithmeticAlternative (CV_int64 1) (CV_double (Finite False (5 / 2)))
   \<and> foldPlus (CV_int64 1) (CV_double (Finite False (5 / 2))) = CV_int64 1
   \<and> check (advance (newParser intPlusFloat)) Plus
   \<and> parseMulExpr 17 (advance (advance (newParser intPlusFloat)))
       = Inr (CV_double (Finite False (5 / 2)), advance (advance (advance (newParser intPlusFloat))))
   \<and> addLoop 18 (CV_int64 1) (advance (newParser intPlusFloat))
       = addLoop 17 (CV_int64 1) (advance (advance (advance (newParser intPlusFloat))))
   \<and> parseConstExpr 20 (newParser intPlusFloat)
       = Inr (CV_int64 1, advance (advance (advance (newParser intPlusFloat))))
   \<and> errors (advance (advance (advance (newParser intPlusFloat)))) = []"
proof -
  let ?l = "CV_int64 1" and ?r = "CV_double (Finite False (5 / 2))"
  let ?p = "advance (newParser intPlusFloat)"
  let ?p1 = "advance (advance ?p)"
  have a: "\<not> sameArithmeticAlternative ?l ?r"
    by (simp add: sameArithmeticAlternative_def)
  have c: "check ?p Plus" by (simp add: intPlusFloat_def token_step)
  have m: "parseMulExpr 17 (advance ?p) = Inr (?r, ?p1)"
    by (simp add: intPlusFloat_def token_step fuel_numeral)
  have e: "parseConstExpr 20 (newParser intPlusFloat) = Inr (?l, ?p1)"
    by (simp add: intPlusFloat_def token_step fuel_numeral foldPlus_def)
  have z: "errors ?p1 = []" by (simp add: intPlusFloat_def token_step)
  note t = mixed_operands_keep_left[of ?l ?r ?p 17 ?p1]
  have f: "foldPlus ?l ?r = ?l" using t a by blast
  have "addLoop (Suc 17) ?l ?p = addLoop 17 ?l ?p1" using t a c m by blast
  then have l: "addLoop 18 ?l ?p = addLoop 17 ?l ?p1" by simp
  show ?thesis using a f c m l e z by blast
qed

end
